theory Spec2Isabelle
  imports Complex_Main "HOL-Library.Sublist" "HOL-Library.Multiset"
begin

section \<open>Strings\<close>

text \<open>
  A TypeScript string is modelled as a \<^typ>\<open>string\<close> of ASCII characters. On such strings
  \<^verbatim>\<open>String.prototype.toLowerCase\<close> maps the letters \<^verbatim>\<open>A\<close>..\<^verbatim>\<open>Z\<close> to \<^verbatim>\<open>a\<close>..\<^verbatim>\<open>z\<close> and leaves
  every other character alone, and \<^verbatim>\<open>includes\<close> is containment of a contiguous substring.
\<close>

definition lower_char :: "char \<Rightarrow> char" where
  "lower_char c =
     (case map_of (zip ''ABCDEFGHIJKLMNOPQRSTUVWXYZ'' ''abcdefghijklmnopqrstuvwxyz'') c of
        None \<Rightarrow> c
      | Some l \<Rightarrow> l)"

definition toLowerCase :: "string \<Rightarrow> string" where
  "toLowerCase s = map lower_char s"

primrec str_includes :: "string \<Rightarrow> string \<Rightarrow> bool" where
  "str_includes [] k = (k = [])"
| "str_includes (c # s) k = (prefix k (c # s) \<or> str_includes s k)"

section \<open>Question router (qaLib.ts)\<close>

datatype Domain = Resume | Personal

datatype DomainHint = HintResume | HintPersonal | HintBoth | HintUnknown

definition personalKeys :: "string list" where
  "personalKeys =
     [''hobby'', ''hobbies'', ''interest'', ''interests'', ''free time'', ''outside work'',
      ''outside of work'', ''weekend'', ''leisure'', ''music'', ''books'', ''reading'',
      ''travel'', ''sports'', ''volunteer'', ''volunteering'', ''hike'', ''gaming'',
      ''family'', ''pets'', ''art'', ''photography'']"

definition resumeKeys :: "string list" where
  "resumeKeys =
     [''resume'', ''cv'', ''experience'', ''work'', ''role'', ''title'', ''employer'',
      ''company'', ''education'', ''skill'', ''project'', ''years'', ''responsibil'',
      ''achievement'']"

definition classifyQuestion :: "string \<Rightarrow> DomainHint" where
  "classifyQuestion q =
     (let s = toLowerCase q;
          isPersonal = list_ex (\<lambda>k. str_includes s k) personalKeys;
          isResume = list_ex (\<lambda>k. str_includes s k) resumeKeys
      in if isPersonal \<and> isResume then HintBoth
         else if isPersonal then HintPersonal
         else if isResume then HintResume
         else HintUnknown)"

definition ensureTermsForQuestion :: "string \<Rightarrow> string list" where
  "ensureTermsForQuestion q =
     (let s = toLowerCase q in if str_includes s ''fynd'' then [] @ [''ratl.ai'', ''about ratl.ai'']
      else [])"


section \<open>Numbers and vectors (qaLib.ts, buildIndex.ts)\<close>

text \<open>
  A JavaScript number is an IEEE 754 double: a finite value, an infinity or \<^verbatim>\<open>NaN\<close>. The two
  zeros are not told apart.
\<close>

datatype JSNumber = Num real | Infinity | NegInfinity | NaN

text \<open>
  Rounding to the nearest double, ties to even. A positive real \<open>r\<close> with
  \<open>2 ^ i \<le> r < 2 ^ (i + 1)\<close> is rounded to a multiple of \<open>2 ^ (i - 52)\<close>, and below
  \<open>2 ^ - 1022\<close> to a multiple of \<open>2 ^ - 1074\<close>; a result of \<open>2 ^ 1024\<close> or more is an infinity.
\<close>

definition round_half_even :: "real \<Rightarrow> int" where
  "round_half_even q =
     (let f = \<lfloor>q\<rfloor>; d = q - of_int f
      in if d < 1 / 2 then f else if 1 / 2 < d then f + 1 else if even f then f else f + 1)"

definition fl_pos :: "real \<Rightarrow> JSNumber" where
  "fl_pos r =
     (let e = max \<lfloor>log 2 r\<rfloor> (- 1022) - 52;
          y = of_int (round_half_even (r / 2 powr of_int e)) * 2 powr of_int e
      in if 2 ^ 1024 \<le> y then Infinity else Num y)"

fun js_neg :: "JSNumber \<Rightarrow> JSNumber" where
  "js_neg (Num a) = Num (- a)"
| "js_neg Infinity = NegInfinity"
| "js_neg NegInfinity = Infinity"
| "js_neg NaN = NaN"

definition fl :: "real \<Rightarrow> JSNumber" where
  "fl r = (if r = 0 then Num 0 else if 0 < r then fl_pos r else js_neg (fl_pos (- r)))"


text \<open>
  The arithmetic that \<^verbatim>\<open>normalize\<close> uses: each operation gives the exact result, rounded,
  and follows IEEE 754 on infinities and \<^verbatim>\<open>NaN\<close>.
\<close>

fun js_add :: "JSNumber \<Rightarrow> JSNumber \<Rightarrow> JSNumber" where
  "js_add (Num a) (Num b) = fl (a + b)"
| "js_add NaN y = NaN"
| "js_add x NaN = NaN"
| "js_add Infinity NegInfinity = NaN"
| "js_add NegInfinity Infinity = NaN"
| "js_add Infinity y = Infinity"
| "js_add x Infinity = Infinity"
| "js_add NegInfinity y = NegInfinity"
| "js_add x NegInfinity = NegInfinity"

fun js_mul :: "JSNumber \<Rightarrow> JSNumber \<Rightarrow> JSNumber" where
  "js_mul (Num a) (Num b) = fl (a * b)"
| "js_mul NaN y = NaN"
| "js_mul x NaN = NaN"
| "js_mul (Num a) Infinity = (if a = 0 then NaN else if 0 < a then Infinity else NegInfinity)"
| "js_mul (Num a) NegInfinity = (if a = 0 then NaN else if 0 < a then NegInfinity else Infinity)"
| "js_mul Infinity (Num b) = (if b = 0 then NaN else if 0 < b then Infinity else NegInfinity)"
| "js_mul NegInfinity (Num b) = (if b = 0 then NaN else if 0 < b then NegInfinity else Infinity)"
| "js_mul Infinity Infinity = Infinity"
| "js_mul NegInfinity NegInfinity = Infinity"
| "js_mul Infinity NegInfinity = NegInfinity"
| "js_mul NegInfinity Infinity = NegInfinity"

fun js_sqrt :: "JSNumber \<Rightarrow> JSNumber" where
  "js_sqrt (Num a) = (if a < 0 then NaN else fl (sqrt a))"
| "js_sqrt Infinity = Infinity"
| "js_sqrt NegInfinity = NaN"
| "js_sqrt NaN = NaN"

fun js_div :: "JSNumber \<Rightarrow> JSNumber \<Rightarrow> JSNumber" where
  "js_div (Num a) (Num b) =
     (if b = 0 then (if a = 0 then NaN else if 0 < a then Infinity else NegInfinity)
      else fl (a / b))"
| "js_div NaN y = NaN"
| "js_div x NaN = NaN"
| "js_div (Num a) Infinity = Num 0"
| "js_div (Num a) NegInfinity = Num 0"
| "js_div Infinity (Num b) = (if 0 \<le> b then Infinity else NegInfinity)"
| "js_div NegInfinity (Num b) = (if 0 \<le> b then NegInfinity else Infinity)"
| "js_div x y = NaN"

fun js_max :: "JSNumber \<Rightarrow> JSNumber \<Rightarrow> JSNumber" where
  "js_max (Num a) (Num b) = Num (max a b)"
| "js_max NaN y = NaN"
| "js_max x NaN = NaN"
| "js_max Infinity y = Infinity"
| "js_max x Infinity = Infinity"
| "js_max NegInfinity y = y"
| "js_max x NegInfinity = x"


text \<open>The literal \<^verbatim>\<open>1e-12\<close>: the double nearest to it.\<close>

definition epsilon :: JSNumber where
  "epsilon = fl (1 / 10 ^ 12)"


text \<open>
  \<^verbatim>\<open>const n = Math.sqrt(vec.reduce((s, v) => s + v * v, 0)) || 1e-12\<close>: the operator
  \<^verbatim>\<open>||\<close> takes its right operand when the left one is falsy, which for a number means that
  it is zero or \<^verbatim>\<open>NaN\<close>.
\<close>

definition falsy :: "JSNumber \<Rightarrow> bool" where
  "falsy x \<longleftrightarrow> x = Num 0 \<or> x = NaN"

definition normalize_vec :: "JSNumber list \<Rightarrow> JSNumber list" where
  "normalize_vec vec =
     (let m = js_sqrt (foldl (\<lambda>s v. js_add s (js_mul v v)) (Num 0) vec);
          n = (if falsy m then epsilon else m)
      in map (\<lambda>v. js_div v n) vec)"


text \<open>
  The arithmetic of \<^verbatim>\<open>cosine\<close> is taken over the real numbers: a score in the model is the
  real number that the double arithmetic of the code approximates. The loop runs over the
  indices of \<^verbatim>\<open>a\<close>. Where \<^verbatim>\<open>b\<close> is shorter, \<^verbatim>\<open>b[i]\<close> is \<^verbatim>\<open>undefined\<close> and the three sums, and
  with them the result, are \<^verbatim>\<open>NaN\<close>: the value \<^const>\<open>None\<close>. An entry of \<^verbatim>\<open>a\<close> that is not
  finite makes \<^verbatim>\<open>na\<close> infinite or \<^verbatim>\<open>NaN\<close> and \<^verbatim>\<open>dot\<close> infinite or \<^verbatim>\<open>NaN\<close>, so the
  result is \<^verbatim>\<open>NaN\<close> again. Where \<^verbatim>\<open>b\<close> is longer, its surplus entries are never read. The
  entries of \<^verbatim>\<open>b\<close>, a stored embedding, are taken to be finite.
\<close>

fun cosine_loop ::
  "JSNumber list \<Rightarrow> real list \<Rightarrow> real \<times> real \<times> real \<Rightarrow> (real \<times> real \<times> real) option" where
  "cosine_loop [] b acc = Some acc"
| "cosine_loop (x # a) [] acc = None"
| "cosine_loop (Num x # a) (y # b) (dot, na, nb) =
     cosine_loop a b (dot + x * y, na + x * x, nb + y * y)"
| "cosine_loop (x # a) (y # b) acc = None"

definition cosine :: "JSNumber list \<Rightarrow> real list \<Rightarrow> real option" where
  "cosine a b =
     (case cosine_loop a b (0, 0, 0) of
        None \<Rightarrow> None
      | Some (dot, na, nb) \<Rightarrow> Some (dot / (sqrt na * sqrt nb + 1 / 10 ^ 12)))"

section \<open>Index store (qaLib.ts)\<close>

record RecordT =
  rec_id :: int
  rec_text :: string
  source :: string
  domain :: "Domain option"
  embedding :: "real list"

record RetrieveOptions =
  domainFilter :: "Domain option"
  ensureTerms :: "string list option"

record Scored = RecordT +
  score :: real

record Cited = Scored +
  cid :: string

datatype Error =
    ReadFailed
  | ParseFailed
  | IndexEmpty
  | EmbeddingFailed
  | ScoreIsNaN
  | MissingApiKey
  | ExtractFailed
  | NoDocuments
  | SplitFailed
  | WriteFailed

datatype IndexPath = KNOWLEDGE_PATH | FALLBACK_RESUME_PATH

text \<open>What \<^verbatim>\<open>JSON.parse\<close> makes of the content of a file.\<close>

datatype Parsed = Malformed | NotAnArray | Array "RecordT list"

text \<open>
  The surroundings of a query: the two index files (\<^const>\<open>None\<close> for a file that does not
  exist) and the embedding service (\<^const>\<open>None\<close> for a request that fails).
\<close>

record Env =
  knowledge_file :: "Parsed option"
  fallback_file :: "Parsed option"
  embeddings_create :: "string \<Rightarrow> JSNumber list option"

definition file_at :: "Env \<Rightarrow> IndexPath \<Rightarrow> Parsed option" where
  "file_at env p = (case p of KNOWLEDGE_PATH \<Rightarrow> knowledge_file env | FALLBACK_RESUME_PATH \<Rightarrow> fallback_file env)"

definition existsSync :: "Env \<Rightarrow> IndexPath \<Rightarrow> bool" where
  "existsSync env p = (file_at env p \<noteq> None)"

definition resolveIndexPath :: "Env \<Rightarrow> IndexPath" where
  "resolveIndexPath env =
     (if existsSync env KNOWLEDGE_PATH then KNOWLEDGE_PATH else FALLBACK_RESUME_PATH)"

text \<open>
  \<^verbatim>\<open>loadIndex\<close> returns, next to its outcome, the paths it handed to \<^verbatim>\<open>readFile\<close>, in order.
\<close>

definition loadIndex :: "Env \<Rightarrow> IndexPath list \<times> (Error + RecordT list)" where
  "loadIndex env =
     (let pathToUse = resolveIndexPath env
      in ([pathToUse],
          case file_at env pathToUse of
            None \<Rightarrow> Inl ReadFailed
          | Some Malformed \<Rightarrow> Inl ParseFailed
          | Some NotAnArray \<Rightarrow> Inl IndexEmpty
          | Some (Array payload) \<Rightarrow> if length payload = 0 then Inl IndexEmpty else Inr payload))"

section \<open>Retriever (qaLib.ts)\<close>

definition with_score :: "RecordT \<Rightarrow> real \<Rightarrow> Scored" where
  "with_score r s =
     \<lparr>rec_id = rec_id r, rec_text = rec_text r, source = source r, domain = domain r,
      embedding = embedding r, score = s\<rparr>"

definition with_cid :: "Scored \<Rightarrow> string \<Rightarrow> Cited" where
  "with_cid r c =
     \<lparr>rec_id = rec_id r, rec_text = rec_text r, source = source r, domain = domain r,
      embedding = embedding r, score = score r, cid = c\<rparr>"

definition domain_or_resume :: "RecordT \<Rightarrow> Domain" where
  "domain_or_resume r = (case domain r of None \<Rightarrow> Resume | Some d \<Rightarrow> d)"

definition filter_domain :: "Domain option \<Rightarrow> RecordT list \<Rightarrow> RecordT list" where
  "filter_domain df payload =
     (case df of
        Some d \<Rightarrow> filter (\<lambda>r. domain_or_resume r = d) payload
      | None \<Rightarrow> payload)"

text \<open>
  \<^verbatim>\<open>filtered.map((rec) => ({...rec, score: cosine(qnorm, rec.embedding)}))\<close>. A score that is
  \<^verbatim>\<open>NaN\<close> makes the comparator of the sort inconsistent and the order of the sorted array
  implementation-defined; the model does not follow the run past that point and yields
  \<^const>\<open>None\<close>.
\<close>

primrec score_all :: "JSNumber list \<Rightarrow> RecordT list \<Rightarrow> Scored list option" where
  "score_all qnorm [] = Some []"
| "score_all qnorm (r # rs) =
     (case cosine qnorm (embedding r) of
        None \<Rightarrow> None
      | Some s \<Rightarrow> (case score_all qnorm rs of None \<Rightarrow> None | Some ss \<Rightarrow> Some (with_score r s # ss)))"

text \<open>
  \<^verbatim>\<open>scored.sort((a, b) => b.score - a.score)\<close>: \<^verbatim>\<open>Array.prototype.sort\<close> is a stable sort,
  here by descending score, which is ascending negated score.
\<close>

definition sort_by_score :: "Scored list \<Rightarrow> Scored list" where
  "sort_by_score scored = sort_key (\<lambda>r. - score r) scored"

definition matches_ensure :: "string list \<Rightarrow> 'a RecordT_scheme \<Rightarrow> bool" where
  "matches_ensure ensure r = list_ex (\<lambda>t. str_includes (toLowerCase (rec_text r)) t) ensure"

text \<open>The filter that keeps the first record of each id; \<open>seen\<close> is the set it fills.\<close>

primrec dedupe_by_id :: "int set \<Rightarrow> Scored list \<Rightarrow> Scored list" where
  "dedupe_by_id seen [] = []"
| "dedupe_by_id seen (m # ms) =
     (if rec_id m \<in> seen then dedupe_by_id seen ms
      else m # dedupe_by_id (insert (rec_id m) seen) ms)"

definition ensured_of :: "string list \<Rightarrow> Scored list \<Rightarrow> Scored list" where
  "ensured_of ensure scored =
     (if length ensure > 0 then dedupe_by_id {} (filter (matches_ensure ensure) scored) else [])"

text \<open>
  \<^verbatim>\<open>xs.slice(0, k)\<close> for an integer \<open>k\<close>: a negative \<open>k\<close> counts from the end of the array.
\<close>

definition slice0 :: "'a list \<Rightarrow> int \<Rightarrow> 'a list" where
  "slice0 xs k = (if k < 0 then take (nat (int (length xs) + k)) xs else take (nat k) xs)"

fun decimal :: "nat \<Rightarrow> string" where
  "decimal n =
     (if n < 10 then [''0123456789'' ! n] else decimal (n div 10) @ [''0123456789'' ! (n mod 10)])"

declare decimal.simps [simp del]

definition assign_cids :: "Scored list \<Rightarrow> Cited list" where
  "assign_cids final = map (\<lambda>(i, r). with_cid r (''C'' @ decimal (i + 1))) (enumerate 0 final)"

text \<open>The part of \<^verbatim>\<open>retrieveInternal\<close> that follows the scoring.\<close>

definition rank :: "Scored list \<Rightarrow> string list option \<Rightarrow> int \<Rightarrow> Cited list" where
  "rank scored0 terms k =
     (let scored = sort_by_score scored0;
          ensure = map toLowerCase (case terms of None \<Rightarrow> [] | Some ts \<Rightarrow> ts);
          ensured = ensured_of ensure scored;
          seen = set (map rec_id ensured);
          rest = filter (\<lambda>r. rec_id r \<notin> seen) scored;
          final = slice0 (ensured @ rest) k
      in assign_cids final)"

definition retrieveInternal :: "Env \<Rightarrow> string \<Rightarrow> int \<Rightarrow> RetrieveOptions \<Rightarrow> Error + Cited list" where
  "retrieveInternal env query k opts =
     (case snd (loadIndex env) of
        Inl e \<Rightarrow> Inl e
      | Inr payload \<Rightarrow>
          let filtered = filter_domain (domainFilter opts) payload
          in if length filtered = 0 then Inr []
             else (case embeddings_create env query of
                     None \<Rightarrow> Inl EmbeddingFailed
                   | Some q \<Rightarrow>
                       (case score_all (normalize_vec q) filtered of
                          None \<Rightarrow> Inl ScoreIsNaN
                        | Some scored0 \<Rightarrow> Inr (rank scored0 (ensureTerms opts) k))))"

section \<open>Answer orchestration (qaLib.ts)\<close>

text \<open>
  The retrieval stage of \<^verbatim>\<open>answer\<close>. Next to the retrieved records it returns the options of
  every call of \<^verbatim>\<open>retrieveInternal\<close> it made, in order. What follows in \<^verbatim>\<open>answer\<close> joins the
  texts of the records into a prompt for the chat completion service.
\<close>

definition answer_retrieve ::
  "Env \<Rightarrow> string \<Rightarrow> int \<Rightarrow> RetrieveOptions list \<times> (Error + Cited list)" where
  "answer_retrieve env question k =
     (let domainHint = classifyQuestion question;
          ensure = ensureTermsForQuestion question;
          unfiltered = \<lparr>domainFilter = None, ensureTerms = None\<rparr>;
          with_ensure = \<lparr>domainFilter = None, ensureTerms = Some ensure\<rparr>;
          only_personal = \<lparr>domainFilter = Some Personal, ensureTerms = None\<rparr>;
          only_resume = \<lparr>domainFilter = Some Resume, ensureTerms = None\<rparr>
      in if length ensure > 0 then ([with_ensure], retrieveInternal env question k with_ensure)
         else if domainHint = HintPersonal then
           (case retrieveInternal env question k only_personal of
              Inl e \<Rightarrow> ([only_personal], Inl e)
            | Inr tops \<Rightarrow>
                if length tops = 0
                then ([only_personal, unfiltered], retrieveInternal env question k unfiltered)
                else ([only_personal], Inr tops))
         else if domainHint = HintResume
         then ([only_resume], retrieveInternal env question k only_resume)
         else ([unfiltered], retrieveInternal env question k unfiltered))"

section \<open>Index build (buildIndex.ts)\<close>

text \<open>The ASCII characters that \<^verbatim>\<open>String.prototype.trim\<close> removes from both ends.\<close>

definition is_white_space :: "char \<Rightarrow> bool" where
  "is_white_space c \<longleftrightarrow> c \<in> set [CHR 0x09, CHR 0x0A, CHR 0x0B, CHR 0x0C, CHR 0x0D, CHR 0x20]"

definition trim :: "string \<Rightarrow> string" where
  "trim s = rev (dropWhile is_white_space (rev (dropWhile is_white_space s)))"

record Doc =
  doc_text :: string
  doc_source :: string
  doc_domain :: Domain

text \<open>A file of the data directory, as \<^verbatim>\<open>readTextFromPath\<close> finds it.\<close>

datatype Extracted = Unreadable | Text string

text \<open>
  A record as \<^verbatim>\<open>buildIndex\<close> writes it; \<^verbatim>\<open>embeddings[i]\<close> is \<^verbatim>\<open>undefined\<close> where the embedding
  service returned fewer vectors than it was sent texts.
\<close>

record BuiltRecord =
  built_id :: nat
  built_text :: string
  built_source :: string
  built_domain :: Domain
  built_embedding :: "JSNumber list option"

text \<open>
  The surroundings of a build: whether the API key is set, the files of the data directory by
  name, the text splitter of the library (\<^const>\<open>None\<close> where it throws), the embedding
  service (\<^const>\<open>None\<close> for a request that fails) and whether the index file can be written.
\<close>

record BuildEnv =
  api_key_set :: bool
  data_dir :: "string \<Rightarrow> Extracted option"
  splitText :: "string \<Rightarrow> string list option"
  embeddings_create_batch :: "string list \<Rightarrow> JSNumber list list option"
  index_writable :: bool

definition bases :: "(string \<times> Domain) list" where
  "bases =
     [(''resume'', Resume), (''profile'', Personal), (''personal'', Personal),
      (''about'', Personal), (''bio'', Personal), (''interests'', Personal)]"

definition exts :: "string list" where
  "exts = [''.pdf'', ''.docx'', ''.md'', ''.txt'']"

text \<open>The inner loop of \<^verbatim>\<open>loadDocuments\<close>: the first extension whose file exists.\<close>

primrec first_existing ::
  "(string \<Rightarrow> Extracted option) \<Rightarrow> string \<Rightarrow> string list \<Rightarrow> (string \<times> Extracted) option" where
  "first_existing fs base [] = None"
| "first_existing fs base (ext # es) =
     (case fs (base @ ext) of
        None \<Rightarrow> first_existing fs base es
      | Some x \<Rightarrow> Some (base @ ext, x))"

primrec load_bases ::
  "(string \<Rightarrow> Extracted option) \<Rightarrow> (string \<times> Domain) list \<Rightarrow> Doc list \<Rightarrow> Error + Doc list" where
  "load_bases fs [] docs = Inr docs"
| "load_bases fs (b # bs) docs =
     (case first_existing fs (fst b) exts of
        None \<Rightarrow> load_bases fs bs docs
      | Some (p, Unreadable) \<Rightarrow> Inl ExtractFailed
      | Some (p, Text t) \<Rightarrow>
          load_bases fs bs (docs @ [\<lparr>doc_text = t, doc_source = p, doc_domain = snd b\<rparr>]))"

definition loadDocuments :: "(string \<Rightarrow> Extracted option) \<Rightarrow> Error + Doc list" where
  "loadDocuments fs =
     (case load_bases fs bases [] of
        Inl e \<Rightarrow> Inl e
      | Inr docs \<Rightarrow> if length docs = 0 then Inl NoDocuments else Inr docs)"

definition chunkText :: "(string \<Rightarrow> string list option) \<Rightarrow> string \<Rightarrow> Error + string list" where
  "chunkText split txt =
     (case split txt of
        None \<Rightarrow> Inl SplitFailed
      | Some chunks \<Rightarrow> Inr (filter (\<lambda>c. length c > 50) (map trim chunks)))"

definition embedBatch ::
  "(string list \<Rightarrow> JSNumber list list option) \<Rightarrow> string list \<Rightarrow> Error + JSNumber list list" where
  "embedBatch api texts =
     (case api texts of
        None \<Rightarrow> Inl EmbeddingFailed
      | Some data \<Rightarrow> Inr (map normalize_vec data))"

text \<open>The loop of \<^verbatim>\<open>buildIndex\<close> that chunks each document and keeps its metadata.\<close>

primrec chunk_docs ::
  "(string \<Rightarrow> string list option) \<Rightarrow> Doc list \<Rightarrow> string list \<Rightarrow> (string \<times> Domain) list \<Rightarrow>
     Error + string list \<times> (string \<times> Domain) list" where
  "chunk_docs split [] chunkTexts metas = Inr (chunkTexts, metas)"
| "chunk_docs split (d # ds) chunkTexts metas =
     (case chunkText split (doc_text d) of
        Inl e \<Rightarrow> Inl e
      | Inr chunks \<Rightarrow>
          chunk_docs split ds (chunkTexts @ chunks)
            (metas @ map (\<lambda>ch. (doc_source d, doc_domain d)) chunks))"

text \<open>The loop \<^verbatim>\<open>for (let i = 0; i < chunkTexts.length; i += BATCH)\<close> with \<^verbatim>\<open>BATCH = 64\<close>.\<close>

function embed_batches ::
  "(string list \<Rightarrow> JSNumber list list option) \<Rightarrow> string list \<Rightarrow> nat \<Rightarrow> JSNumber list list \<Rightarrow>
     Error + JSNumber list list" where
  "embed_batches api chunkTexts i embeddings =
     (if i < length chunkTexts then
        (case embedBatch api (take 64 (drop i chunkTexts)) of
           Inl e \<Rightarrow> Inl e
         | Inr vecs \<Rightarrow> embed_batches api chunkTexts (i + 64) (embeddings @ vecs))
      else Inr embeddings)"
  by pat_completeness auto
termination
  by (relation "measure (\<lambda>(api, chunkTexts, i, embeddings). length chunkTexts - i)") auto

declare embed_batches.simps [simp del]

definition make_records ::
  "string list \<Rightarrow> (string \<times> Domain) list \<Rightarrow> JSNumber list list \<Rightarrow> BuiltRecord list" where
  "make_records chunkTexts metas embeddings =
     map (\<lambda>(i, ch).
            \<lparr>built_id = i, built_text = ch, built_source = fst (metas ! i),
             built_domain = snd (metas ! i),
             built_embedding = (if i < length embeddings then Some (embeddings ! i) else None)\<rparr>)
         (enumerate 0 chunkTexts)"

text \<open>
  \<^verbatim>\<open>buildIndex\<close>, without its console output; its result is the array of records it writes to
  the index file.
\<close>

definition buildIndex :: "BuildEnv \<Rightarrow> Error + BuiltRecord list" where
  "buildIndex env =
     (if \<not> api_key_set env then Inl MissingApiKey
      else case loadDocuments (data_dir env) of
             Inl e \<Rightarrow> Inl e
           | Inr docs \<Rightarrow>
               (case chunk_docs (splitText env) docs [] [] of
                  Inl e \<Rightarrow> Inl e
                | Inr (chunkTexts, metas) \<Rightarrow>
                    (case embed_batches (embeddings_create_batch env) chunkTexts 0 [] of
                       Inl e \<Rightarrow> Inl e
                     | Inr embeddings \<Rightarrow>
                         if index_writable env
                         then Inr (make_records chunkTexts metas embeddings)
                         else Inl WriteFailed)))"

section \<open>Notions of the specification\<close>

text \<open>
  The norm as \<^verbatim>\<open>normalize\<close> computes it, and normalisation as the specification words it:
  division by the greater of that norm and \<^verbatim>\<open>1e-12\<close>, with \<^verbatim>\<open>Math.max\<close> for the greater.
\<close>

definition computed_norm :: "JSNumber list \<Rightarrow> JSNumber" where
  "computed_norm v = js_sqrt (foldl (\<lambda>s x. js_add s (js_mul x x)) (Num 0) v)"

definition normalize_spec :: "JSNumber list \<Rightarrow> JSNumber list" where
  "normalize_spec v = map (\<lambda>x. js_div x (js_max (computed_norm v) (epsilon))) v"

fun nonnegative :: "JSNumber \<Rightarrow> bool" where
  "nonnegative (Num a) \<longleftrightarrow> 0 \<le> a"
| "nonnegative Infinity \<longleftrightarrow> True"
| "nonnegative NegInfinity \<longleftrightarrow> False"
| "nonnegative NaN \<longleftrightarrow> False"

definition finite_number :: "JSNumber \<Rightarrow> bool" where
  "finite_number x \<longleftrightarrow> (\<exists>a. x = Num a)"


text \<open>
  A list of records deduplicated by id, the first occurrence winning: the record at a position
  stays when no earlier position holds its id.
\<close>

definition first_by_id :: "Scored list \<Rightarrow> Scored list" where
  "first_by_id ms =
     map (\<lambda>i. ms ! i)
       (filter (\<lambda>i. rec_id (ms ! i) \<notin> rec_id ` set (take i ms)) [0..<length ms])"



section \<open>Example data\<close>

definition rec_low :: RecordT where
  "rec_low =
     \<lparr>rec_id = 0, rec_text = ''x low'', source = ''about.md'', domain = Some Personal,
      embedding = [0, 1]\<rparr>"

definition rec_high :: RecordT where
  "rec_high =
     \<lparr>rec_id = 1, rec_text = ''X high'', source = ''resume.md'', domain = Some Resume,
      embedding = [1, 0]\<rparr>"


definition rec_ratl :: RecordT where
  "rec_ratl =
     \<lparr>rec_id = 0, rec_text = ''About ratl.ai: ratl.ai is a company'', source = ''about.md'',
      domain = Some Personal, embedding = [0, 1]\<rparr>"

definition rec_fynd :: RecordT where
  "rec_fynd =
     \<lparr>rec_id = 1, rec_text = ''Worked at Fynd as engineer'', source = ''resume.md'',
      domain = None, embedding = [1, 0]\<rparr>"

definition env_both :: Env where
  "env_both =
     \<lparr>knowledge_file = Some (Array [rec_ratl, rec_fynd]), fallback_file = None,
      embeddings_create = (\<lambda>q. Some [Num 2, Num 0])\<rparr>"

definition env_resume_only :: Env where
  "env_resume_only =
     \<lparr>knowledge_file = None, fallback_file = Some (Array [rec_fynd]),
      embeddings_create = (\<lambda>q. Some [Num 2, Num 0])\<rparr>"

definition rec_tie :: RecordT where
  "rec_tie =
     \<lparr>rec_id = 2, rec_text = ''tie'', source = ''about.md'', domain = Some Personal,
      embedding = [0, 3]\<rparr>"

definition env_tie :: Env where
  "env_tie =
     \<lparr>knowledge_file = Some (Array [rec_low, rec_high, rec_tie]), fallback_file = None,
      embeddings_create = (\<lambda>q. Some [Num 2, Num 0])\<rparr>"

definition env_tie_other :: Env where
  "env_tie_other =
     \<lparr>knowledge_file = Some (Array [rec_low, rec_high, rec_tie]),
      fallback_file = Some (Array [rec_high]),
      embeddings_create = (\<lambda>q. if q = ''q'' then Some [Num 2, Num 0] else None)\<rparr>"



definition rec_ratl_work :: RecordT where
  "rec_ratl_work =
     \<lparr>rec_id = 0, rec_text = ''About ratl.ai: ratl.ai is a company'', source = ''resume.md'',
      domain = None, embedding = [0, 1]\<rparr>"

definition env_no_personal :: Env where
  "env_no_personal =
     \<lparr>knowledge_file = Some (Array [rec_ratl_work, rec_fynd]), fallback_file = None,
      embeddings_create = (\<lambda>q. Some [Num 2, Num 0])\<rparr>"

definition build_env_example :: BuildEnv where
  "build_env_example =
     \<lparr>api_key_set = True,
      data_dir = (\<lambda>p. if p = ''resume.md''
                        then Some (Text ''Worked at Fynd. Before that, studied. Likes hiking.'')
                        else None),
      splitText = (\<lambda>t. Some [''  Worked at Fynd as an engineer on retrieval systems, 2020-2024.  '',
                              '' Likes hiking. '']),
      embeddings_create_batch = (\<lambda>ts. Some (map (\<lambda>t. [Num 2, Num 0]) ts)),
      index_writable = True\<rparr>"

section \<open>Facts about strings\<close>

lemma includes_iff_sublist: "str_includes s k \<longleftrightarrow> sublist k s"
  by (induction s) (auto simp: sublist_Cons_right)

lemma includes_iff: "str_includes s k \<longleftrightarrow> (\<exists>pre post. s = pre @ k @ post)"
  by (simp add: includes_iff_sublist sublist_def)

lemma sublist_map_iff: "sublist k (map f s) \<longleftrightarrow> (\<exists>w. sublist w s \<and> map f w = k)"
proof
  assume "sublist k (map f s)"
  then obtain ps ss where "map f s = ps @ k @ ss"
    by (auto simp: sublist_def)
  then obtain a b c where "s = a @ b @ c" "map f b = k"
    by (metis map_eq_append_conv)
  then show "\<exists>w. sublist w s \<and> map f w = k"
    by auto
next
  assume "\<exists>w. sublist w s \<and> map f w = k"
  then obtain w ps ss where w: "s = ps @ w @ ss" "map f w = k"
    by (auto simp: sublist_def)
  then have "map f s = map f ps @ k @ map f ss"
    by simp
  then show "sublist k (map f s)"
    unfolding sublist_def by blast
qed

text \<open>
  Looking for \<open>k\<close> in the lowercased string is looking in the string itself for a piece that
  lowercases to \<open>k\<close>.
\<close>

lemma includes_lower_iff:
  "str_includes (toLowerCase q) k \<longleftrightarrow> (\<exists>w. sublist w q \<and> toLowerCase w = k)"
  by (simp add: includes_iff_sublist toLowerCase_def sublist_map_iff)

lemma lower_char_idem: "lower_char (lower_char c) = lower_char c"
  unfolding lower_char_def by (simp split: if_splits)

lemma toLowerCase_idem: "toLowerCase (toLowerCase s) = toLowerCase s"
  by (simp add: toLowerCase_def lower_char_idem)

section \<open>The question router\<close>

lemma keys_disjoint: "set personalKeys \<inter> set resumeKeys = {}"
  by (simp add: personalKeys_def resumeKeys_def)

lemma keys_lowercase: "\<forall>k \<in> set (personalKeys @ resumeKeys). toLowerCase k = k"
  by (simp add: personalKeys_def resumeKeys_def toLowerCase_def lower_char_def)

lemma work_in_outside_work:
  "sublist ''work'' ''outside work''" "sublist ''work'' ''outside of work''"
  by (simp_all add: sublist_Cons_right)

lemma some_key_iff:
  "list_ex (\<lambda>k. str_includes (toLowerCase q) k) ks \<longleftrightarrow>
     (\<exists>k \<in> set ks. \<exists>w. sublist w q \<and> toLowerCase w = k)"
  by (simp add: list_ex_iff includes_lower_iff)

text \<open>
  C4. \<^verbatim>\<open>classifyQuestion\<close> lowercases the question and looks for the keywords of two fixed
  lists in it: a keyword matches when some contiguous piece of the question is the keyword up
  to the case of its letters (every keyword is in lower case). The two lists have no keyword
  in common. The answer is \<open>both\<close> when a keyword of each list matches, \<open>personal\<close> when only
  a personal keyword does, \<open>resume\<close> when only a resume keyword does, \<open>unknown\<close> when none does.
\<close>

theorem classifyQuestion_cases:
  fixes q :: string
  defines "isPersonal \<equiv> \<exists>k \<in> set personalKeys. \<exists>w. sublist w q \<and> toLowerCase w = k"
    and "isResume \<equiv> \<exists>k \<in> set resumeKeys. \<exists>w. sublist w q \<and> toLowerCase w = k"
  shows "set personalKeys \<inter> set resumeKeys = {}
       \<and> (\<forall>k \<in> set (personalKeys @ resumeKeys). toLowerCase k = k)
       \<and> (classifyQuestion q = HintBoth \<longleftrightarrow> isPersonal \<and> isResume)
       \<and> (classifyQuestion q = HintPersonal \<longleftrightarrow> isPersonal \<and> \<not> isResume)
       \<and> (classifyQuestion q = HintResume \<longleftrightarrow> \<not> isPersonal \<and> isResume)
       \<and> (classifyQuestion q = HintUnknown \<longleftrightarrow> \<not> isPersonal \<and> \<not> isResume)"
proof -
  have "classifyQuestion q =
          (if isPersonal \<and> isResume then HintBoth
           else if isPersonal then HintPersonal
           else if isResume then HintResume
           else HintUnknown)"
    unfolding classifyQuestion_def Let_def some_key_iff isPersonal_def isResume_def ..
  then show ?thesis
    using keys_disjoint keys_lowercase by auto
qed

theorem classifyQuestion_cases_witness:
  "(\<exists>k \<in> set personalKeys. \<exists>w. sublist w ''My Hobbies?'' \<and> toLowerCase w = k)
   \<and> \<not> (\<exists>k \<in> set resumeKeys. \<exists>w. sublist w ''My Hobbies?'' \<and> toLowerCase w = k)"
proof -
  have "classifyQuestion ''My Hobbies?'' = HintPersonal"
    by (simp add: classifyQuestion_def toLowerCase_def lower_char_def personalKeys_def
        resumeKeys_def)
  then show ?thesis
    using classifyQuestion_cases [of "''My Hobbies?''"] by blast
qed

text \<open>
  C10. A question whose lowercase form contains \<open>outside work\<close> or \<open>outside of work\<close> is
  classified \<open>both\<close>, never \<open>personal\<close>: either phrase is a personal keyword and contains the
  resume keyword \<open>work\<close>.
\<close>

theorem outside_work_is_both:
  assumes "sublist ''outside work'' (toLowerCase q) \<or> sublist ''outside of work'' (toLowerCase q)"
  shows "classifyQuestion q = HintBoth"
proof -
  from assms have work: "sublist ''work'' (toLowerCase q)"
    using work_in_outside_work sublist_order.order_trans by blast
  have "list_ex (\<lambda>k. str_includes (toLowerCase q) k) resumeKeys"
    using work by (simp add: resumeKeys_def includes_iff_sublist)
  moreover have "list_ex (\<lambda>k. str_includes (toLowerCase q) k) personalKeys"
    using assms by (auto simp: personalKeys_def includes_iff_sublist)
  ultimately show ?thesis
    by (simp add: classifyQuestion_def)
qed

theorem outside_work_is_both_witness:
  "sublist ''outside work'' (toLowerCase ''What do you do Outside Work?'')
   \<and> classifyQuestion ''What do you do Outside Work?'' = HintBoth"
proof -
  have h: "sublist ''outside work'' (toLowerCase ''What do you do Outside Work?'')"
    by (simp add: toLowerCase_def lower_char_def sublist_Cons_right)
  then show ?thesis
    using outside_work_is_both [of "''What do you do Outside Work?''"] by blast
qed

section \<open>Rounding\<close>

lemma round_half_even_nonneg: "0 \<le> q \<Longrightarrow> 0 \<le> round_half_even q"
  by (auto simp: round_half_even_def Let_def)

lemma round_half_even_down: "q - of_int \<lfloor>q\<rfloor> < 1 / 2 \<Longrightarrow> round_half_even q = \<lfloor>q\<rfloor>"
  by (simp add: round_half_even_def Let_def)

lemma fl_pos_cases: "0 < r \<Longrightarrow> fl_pos r = Infinity \<or> (\<exists>y\<ge>0. fl_pos r = Num y)"
  by (auto simp: fl_pos_def Let_def intro!: mult_nonneg_nonneg round_half_even_nonneg)

lemma fl_not_NaN: "fl r \<noteq> NaN"
proof -
  have "0 < r \<Longrightarrow> fl_pos r \<noteq> NaN" for r
    using fl_pos_cases [of r] by auto
  moreover have "js_neg x \<noteq> NaN" if "x \<noteq> NaN" for x
    using that by (cases x) simp_all
  ultimately show ?thesis
    by (simp add: fl_def)
qed

lemma fl_zero: "fl 0 = Num 0"
  by (simp add: fl_def)

lemma fl_nonneg: "0 \<le> r \<Longrightarrow> fl r = Infinity \<or> (\<exists>y\<ge>0. fl r = Num y)"
  using fl_pos_cases [of r] by (auto simp: fl_def)

lemma floor_log2:
  assumes "0 < r" "2 powr of_int i \<le> r" "r < 2 powr of_int (i + 1)"
  shows "\<lfloor>log 2 r\<rfloor> = i"
proof -
  have "of_int i \<le> log 2 r"
    using assms(1,2) by (simp add: le_log_iff)
  moreover have "log 2 r < of_int i + 1"
    using assms(1,3) by (simp add: log_less_iff)
  ultimately show ?thesis
    by (simp add: floor_eq_iff)
qed

lemma fl_round_down:
  assumes r: "0 < r" and lo: "2 powr of_int i \<le> r" and hi: "r < 2 powr of_int (i + 1)"
    and i: "- 1022 \<le> i" "i \<le> 1023"
    and f: "\<lfloor>r / 2 powr of_int (i - 52)\<rfloor> = f"
    and d: "r / 2 powr of_int (i - 52) - of_int f < 1 / 2"
  shows "fl r = Num (of_int f * 2 powr of_int (i - 52))"
proof -
  let ?u = "2 powr of_int (i - 52) :: real"
  have e: "max \<lfloor>log 2 r\<rfloor> (- 1022) - 52 = i - 52"
    using floor_log2 [OF r lo hi] i by simp
  have rhe: "round_half_even (r / ?u) = f"
    using round_half_even_down [of "r / ?u"] f d by simp
  have "of_int f \<le> r / ?u"
    using f by (metis of_int_floor_le)
  then have "of_int f * ?u \<le> r"
    by (simp add: pos_le_divide_eq)
  also have "r < 2 powr of_int (i + 1)"
    by (rule hi)
  also have "\<dots> \<le> 2 powr of_int 1024"
    using i by (intro powr_mono) simp_all
  also have "\<dots> = 2 ^ 1024"
    by simp
  finally have "\<not> (2 ^ 1024 \<le> of_int f * ?u)"
    by simp
  then show ?thesis
    using r by (simp add: fl_def fl_pos_def e rhe del: of_int_diff)
qed

lemma fl_pow2:
  assumes "- 1022 \<le> i" "i \<le> 1023"
  shows "fl (2 powr of_int i) = Num (2 powr of_int i)"
proof -
  have q: "2 powr real_of_int i / 2 powr (real_of_int i - 52) = (2 ^ 52 :: real)"
    by (simp add: powr_diff)
  have "fl (2 powr of_int i) = Num (of_int (2 ^ 52) * 2 powr of_int (i - 52))"
  proof (rule fl_round_down [OF _ _ _ assms])
    show "\<lfloor>2 powr real_of_int i / 2 powr real_of_int (i - 52)\<rfloor> = 2 ^ 52"
      by (simp add: q)
    show "2 powr real_of_int i / 2 powr real_of_int (i - 52) - real_of_int (2 ^ 52) < 1 / 2"
      by (simp add: q)
  qed simp_all
  also have "of_int (2 ^ 52) * 2 powr of_int (i - 52) = (2 powr of_int i :: real)"
    by (simp add: powr_diff)
  finally show ?thesis .
qed

lemma fl_small: "fl 1 = Num 1" "fl 2 = Num 2" "fl 4 = Num 4"
  using fl_pow2 [of 0] fl_pow2 [of 1] fl_pow2 [of 2] by simp_all

lemma epsilon_value: "epsilon = Num (4951760157141521 / 2 ^ 92)"
proof -
  have "fl (1 / 10 ^ 12) = Num (of_int 4951760157141521 * 2 powr of_int (- 40 - 52))"
    by (rule fl_round_down) (simp_all add: powr_minus field_simps floor_eq_iff)
  then show ?thesis
    by (simp add: epsilon_def powr_minus field_simps)
qed

section \<open>Normalisation\<close>

lemma nonnegative_fl: "0 \<le> r \<Longrightarrow> nonnegative (fl r)"
  using fl_nonneg [of r] by auto

lemma nonnegative_add: "nonnegative x \<Longrightarrow> nonnegative y \<Longrightarrow> nonnegative (js_add x y)"
  by (cases x; cases y) (simp_all add: nonnegative_fl)

lemma nonnegative_square: "finite_number x \<Longrightarrow> nonnegative (js_mul x x)"
  by (auto simp: finite_number_def nonnegative_fl)

lemma nonnegative_sum_squares:
  "\<forall>x \<in> set v. finite_number x \<Longrightarrow> nonnegative s \<Longrightarrow>
     nonnegative (foldl (\<lambda>s x. js_add s (js_mul x x)) s v)"
  by (induction v arbitrary: s) (simp_all add: nonnegative_add nonnegative_square)

lemma nonnegative_sqrt: "nonnegative x \<Longrightarrow> nonnegative (js_sqrt x)"
  by (cases x) (simp_all add: nonnegative_fl)

lemma js_sqrt_range: "js_sqrt x = NaN \<or> nonnegative (js_sqrt x)"
  by (cases x) (simp_all add: nonnegative_fl)

lemma computed_norm_range: "computed_norm v = NaN \<or> nonnegative (computed_norm v)"
  unfolding computed_norm_def by (rule js_sqrt_range)

lemma computed_norm_finite:
  "\<forall>x \<in> set v. finite_number x \<Longrightarrow> nonnegative (computed_norm v)"
  unfolding computed_norm_def by (intro nonnegative_sqrt nonnegative_sum_squares) simp_all

lemma sum_squares_zeros:
  "\<forall>x \<in> set v. x = Num 0 \<Longrightarrow> foldl (\<lambda>s x. js_add s (js_mul x x)) (Num 0) v = Num 0"
  by (induction v) (simp_all add: fl_zero)

lemma computed_norm_zeros: "\<forall>x \<in> set v. x = Num 0 \<Longrightarrow> computed_norm v = Num 0"
  by (simp add: computed_norm_def sum_squares_zeros fl_zero)

lemma js_div_not_NaN:
  "finite_number x \<Longrightarrow> nonnegative n \<Longrightarrow> n \<noteq> Num 0 \<Longrightarrow> js_div x n \<noteq> NaN"
  by (cases n) (auto simp: finite_number_def fl_not_NaN)

lemma normalize_vec_eq:
  "normalize_vec v =
     map (\<lambda>x. js_div x (if computed_norm v = Num 0 \<or> computed_norm v = NaN
                         then epsilon else computed_norm v)) v"
  by (simp add: normalize_vec_def computed_norm_def falsy_def Let_def)


lemma fl_inv_pow2:
  assumes "n \<le> 1022"
  shows "fl (1 / 2 ^ n) = Num (1 / 2 ^ n)"
proof -
  have "2 powr of_int (- int n) = (1 / 2 ^ n :: real)"
    by (simp add: powr_minus powr_realpow inverse_eq_divide)
  then show ?thesis
    using fl_pow2 [of "- int n"] assms by simp
qed

lemma normalize_two: "normalize_vec [Num 2, Num 0] = [Num 1, Num 0]"
  by (simp add: normalize_vec_def falsy_def fl_small fl_zero)

lemma computed_norm_tiny: "computed_norm [Num (1 / 2 ^ 50)] = Num (1 / 2 ^ 50)"
proof -
  have "js_mul (Num (1 / 2 ^ 50)) (Num (1 / 2 ^ 50)) = fl (1 / 2 ^ 100)"
    by simp
  also have "\<dots> = Num (1 / 2 ^ 100)"
    by (rule fl_inv_pow2) simp
  finally have sq: "js_mul (Num (1 / 2 ^ 50)) (Num (1 / 2 ^ 50)) = Num (1 / 2 ^ 100)" .
  have "js_add (Num 0) (Num (1 / 2 ^ 100)) = fl (1 / 2 ^ 100)"
    by simp
  also have "\<dots> = Num (1 / 2 ^ 100)"
    by (rule fl_inv_pow2) simp
  finally have sum: "js_add (Num 0) (Num (1 / 2 ^ 100)) = Num (1 / 2 ^ 100)" .
  have root: "sqrt (1 / 2 ^ 100) = (1 / 2 ^ 50 :: real)"
    by (rule real_sqrt_unique) (simp_all add: power2_eq_square)
  have "js_sqrt (Num (1 / 2 ^ 100)) = fl (sqrt (1 / 2 ^ 100))"
    by simp
  also have "\<dots> = fl (1 / 2 ^ 50)"
    by (simp only: root)
  also have "\<dots> = Num (1 / 2 ^ 50)"
    by (rule fl_inv_pow2) simp
  finally have rt: "js_sqrt (Num (1 / 2 ^ 100)) = Num (1 / 2 ^ 50)" .
  show ?thesis
    unfolding computed_norm_def foldl.simps sq sum rt ..
qed

lemma fl_spec_quotient:
  "fl ((1 / 2 ^ 50) / (4951760157141521 / 2 ^ 92)) = Num (8192000000000000 / 2 ^ 63)"
proof -
  have "fl ((1 / 2 ^ 50) / (4951760157141521 / 2 ^ 92))
          = Num (of_int 8192000000000000 * 2 powr of_int (- 11 - 52))"
    by (rule fl_round_down) (simp_all add: powr_minus field_simps floor_eq_iff)
  then show ?thesis
    by (simp add: powr_minus field_simps)
qed


text \<open>
  C2, as the code has it. \<^verbatim>\<open>normalize\<close> divides every component of the vector by \<open>n\<close>, which is
  the norm as computed in double arithmetic unless that is zero or \<^verbatim>\<open>NaN\<close>, and \<^verbatim>\<open>1e-12\<close> then.
  This \<open>n\<close> is the greater of the computed norm and \<^verbatim>\<open>1e-12\<close> except when the computed norm is
  \<^verbatim>\<open>NaN\<close> or lies strictly between zero and \<^verbatim>\<open>1e-12\<close>, and where it is the greater the result is
  the vector divided by \<open>max(||v||, 1e-12)\<close>. When every component of the vector is finite,
  \<open>n\<close> is neither zero nor \<^verbatim>\<open>NaN\<close> and no component of the result is \<^verbatim>\<open>NaN\<close>; the all-zero
  vector comes back unchanged.
\<close>

theorem normalize_vec_by_computed_norm:
  fixes v :: "JSNumber list"
  defines "m \<equiv> computed_norm v"
  defines "n \<equiv> (if m = Num 0 \<or> m = NaN then epsilon else m)"
  shows "normalize_vec v = map (\<lambda>x. js_div x n) v
       \<and> (n = js_max m (epsilon) \<longleftrightarrow>
            \<not> (m = NaN \<or> (\<exists>p. m = Num p \<and> 0 < p \<and> p < 4951760157141521 / 2 ^ 92)))
       \<and> (n = js_max m (epsilon) \<longrightarrow> normalize_vec v = normalize_spec v)
       \<and> ((\<forall>x \<in> set v. finite_number x) \<longrightarrow>
            m \<noteq> NaN \<and> n \<noteq> Num 0 \<and> n \<noteq> NaN \<and> NaN \<notin> set (normalize_vec v))
       \<and> ((\<forall>x \<in> set v. x = Num 0) \<longrightarrow> normalize_vec v = v)"
proof -
  have eq: "normalize_vec v = map (\<lambda>x. js_div x n) v"
    unfolding n_def m_def by (rule normalize_vec_eq)
  have range: "m = NaN \<or> nonnegative m"
    unfolding m_def by (rule computed_norm_range)
  have max_iff: "n = js_max m (epsilon) \<longleftrightarrow>
            \<not> (m = NaN \<or> (\<exists>p. m = Num p \<and> 0 < p \<and> p < 4951760157141521 / 2 ^ 92))"
    using range by (cases m) (auto simp: n_def epsilon_value max_def)
  have spec: "normalize_vec v = normalize_spec v" if "n = js_max m (epsilon)"
    using that by (simp add: eq normalize_spec_def m_def)
  have fin: "m \<noteq> NaN \<and> n \<noteq> Num 0 \<and> n \<noteq> NaN \<and> NaN \<notin> set (normalize_vec v)"
    if f: "\<forall>x \<in> set v. finite_number x"
  proof -
    have nn: "nonnegative m"
      unfolding m_def using f by (rule computed_norm_finite)
    then have n: "nonnegative n" "n \<noteq> Num 0"
      by (auto simp: n_def epsilon_value)
    then have "js_div x n \<noteq> NaN" if "x \<in> set v" for x
      using f that by (intro js_div_not_NaN) auto
    then have "NaN \<notin> set (normalize_vec v)"
      unfolding eq by (metis (mono_tags, lifting) imageE set_map)
    with nn n show ?thesis
      by auto
  qed
  have zeros: "normalize_vec v = v" if z: "\<forall>x \<in> set v. x = Num 0"
  proof -
    have "m = Num 0"
      unfolding m_def using z by (rule computed_norm_zeros)
    then have "n = Num (4951760157141521 / 2 ^ 92)"
      by (simp add: n_def epsilon_value)
    then have "map (\<lambda>x. js_div x n) v = map (\<lambda>x. x) v"
      using z by (intro map_cong) (auto simp: fl_zero)
    then show ?thesis
      by (simp add: eq)
  qed
  show ?thesis
    using eq max_iff spec fin zeros by blast
qed

theorem normalize_vec_by_computed_norm_witness:
  "finite_number (Num 2) \<and> finite_number (Num 0)
   \<and> normalize_vec [Num 2, Num 0] = [Num 1, Num 0]
   \<and> NaN \<notin> set (normalize_vec [Num 2, Num 0])
   \<and> normalize_vec [Num 0, Num 0] = [Num 0, Num 0]"
proof -
  have f: "\<forall>x \<in> set [Num 2, Num 0]. finite_number x"
    by (simp add: finite_number_def)
  have z: "\<forall>x \<in> set [Num 0, Num 0]. x = Num 0"
    by simp
  have "NaN \<notin> set (normalize_vec [Num 2, Num 0])"
    using normalize_vec_by_computed_norm [of "[Num 2, Num 0]"] f by blast
  moreover have "normalize_vec [Num 0, Num 0] = [Num 0, Num 0]"
    using normalize_vec_by_computed_norm [of "[Num 0, Num 0]"] z by blast
  ultimately show ?thesis
    using normalize_two by (simp add: finite_number_def)
qed

text \<open>
  C2, as the specification words it, fails on a vector whose norm lies strictly between zero
  and \<^verbatim>\<open>1e-12\<close>: \<^verbatim>\<open>normalize([2 ** -50])\<close> is \<^verbatim>\<open>[1]\<close>, every step being exact, and the vector
  divided by \<open>max(||v||, 1e-12)\<close> is \<^verbatim>\<open>[0.00088817841970012523]\<close>. And a component that is not
  finite gives \<^verbatim>\<open>NaN\<close>: \<^verbatim>\<open>normalize([Infinity])\<close> is \<^verbatim>\<open>[NaN]\<close>.
\<close>

theorem normalize_vec_not_max_counterexample:
  "normalize_vec [Num (1 / 2 ^ 50)] = [Num 1]
   \<and> normalize_spec [Num (1 / 2 ^ 50)] = [Num (8192000000000000 / 2 ^ 63)]
   \<and> normalize_vec [Infinity] = [NaN]"
proof -
  have a: "normalize_vec [Num (1 / 2 ^ 50)] = [Num 1]"
    unfolding normalize_vec_eq computed_norm_tiny by (simp add: fl_small)
  have "js_max (Num (1 / 2 ^ 50)) epsilon = Num (4951760157141521 / 2 ^ 92)"
    by (simp add: epsilon_value max_def)
  then have b: "normalize_spec [Num (1 / 2 ^ 50)] = [Num (8192000000000000 / 2 ^ 63)]"
    unfolding normalize_spec_def computed_norm_tiny
    by (simp only: list.map js_div.simps fl_spec_quotient) simp
  have c: "normalize_vec [Infinity] = [NaN]"
    by (simp add: normalize_vec_def falsy_def)
  show ?thesis
    using a b c by (rule conjI [OF _ conjI])
qed


section \<open>The index store\<close>

text \<open>
  C6. \<^verbatim>\<open>loadIndex\<close> hands exactly one path to \<^verbatim>\<open>readFile\<close>: the legacy path when the primary
  file is absent, the primary path otherwise. It fails when the file it reads is absent (so
  when both files are), when the file holds the empty array and when it holds no array; it
  returns a payload only when the file it reads holds that payload and the payload is not
  empty.
\<close>

theorem loadIndex_reads_one_path:
  "fst (loadIndex env) =
     [if knowledge_file env = None then FALLBACK_RESUME_PATH else KNOWLEDGE_PATH]
   \<and> (knowledge_file env = None \<and> fallback_file env = None \<longrightarrow>
        snd (loadIndex env) = Inl ReadFailed)
   \<and> (\<forall>p \<in> set (fst (loadIndex env)).
         (file_at env p = None \<longrightarrow> snd (loadIndex env) = Inl ReadFailed)
       \<and> (file_at env p = Some (Array []) \<or> file_at env p = Some NotAnArray \<longrightarrow>
            snd (loadIndex env) = Inl IndexEmpty)
       \<and> (\<forall>payload. snd (loadIndex env) = Inr payload \<longleftrightarrow>
            payload \<noteq> [] \<and> file_at env p = Some (Array payload)))"
  by (auto simp: loadIndex_def resolveIndexPath_def existsSync_def file_at_def Let_def
      split: option.splits Parsed.splits)

theorem loadIndex_reads_one_path_witness:
  "loadIndex \<lparr>knowledge_file = None, fallback_file = Some (Array []),
              embeddings_create = (\<lambda>q. None)\<rparr>
     = ([FALLBACK_RESUME_PATH], Inl IndexEmpty)"
proof -
  let ?env = "\<lparr>knowledge_file = None, fallback_file = Some (Array []),
               embeddings_create = (\<lambda>q. None)\<rparr>"
  have "file_at ?env FALLBACK_RESUME_PATH = Some (Array [])"
    by (simp add: file_at_def)
  then show ?thesis
    using loadIndex_reads_one_path [of ?env] by (simp add: prod_eq_iff)
qed

section \<open>Retrieval: the domain filter\<close>

lemma retrieveInternal_no_candidates:
  assumes "snd (loadIndex env) = Inr payload" "\<forall>r \<in> set payload. domain_or_resume r \<noteq> d"
  shows "retrieveInternal env q k \<lparr>domainFilter = Some d, ensureTerms = terms\<rparr> = Inr []"
proof -
  have "filter (\<lambda>r. domain_or_resume r = d) payload = []"
    using assms(2) by (simp add: filter_empty_conv)
  then show ?thesis
    using assms(1) by (simp add: retrieveInternal_def filter_domain_def)
qed

lemma rank_Some_Nil: "rank scored0 (Some []) k = rank scored0 None k"
  by (simp add: rank_def)

lemmas retrieve_eval =
  retrieveInternal_def loadIndex_def resolveIndexPath_def existsSync_def file_at_def
  filter_domain_def domain_or_resume_def normalize_two cosine_def with_score_def rank_def
  sort_by_score_def ensured_of_def matches_ensure_def slice0_def assign_cids_def with_cid_def
  decimal.simps toLowerCase_def lower_char_def enumerate_eq_zip

lemmas classify_eval =
  classifyQuestion_def ensureTermsForQuestion_def toLowerCase_def lower_char_def
  personalKeys_def resumeKeys_def

section \<open>The answer orchestration\<close>

text \<open>
  C3, as the code has it. The retrieval stage of \<^verbatim>\<open>answer\<close> follows the routing policy: with
  ensure terms it makes one retrieval without domain filter, passing the terms; otherwise, for
  a question classified personal, one retrieval filtered to the personal domain and, exactly
  when that returns no record, a second one without filter; for a question classified resume
  one retrieval filtered to the resume domain; otherwise one retrieval without filter. So a
  question classified personal, over an index with no record of the personal domain, gets what
  a retrieval without domain filter that passes its ensure terms gives; when it derives no
  ensure term, that is the retrieval without filter and without ensure terms.
\<close>

theorem answer_retrieve_routing:
  fixes env :: Env and q :: string and k :: int
  defines "ensure \<equiv> ensureTermsForQuestion q"
    and "unfiltered \<equiv> \<lparr>domainFilter = None, ensureTerms = None\<rparr>"
    and "only_personal \<equiv> \<lparr>domainFilter = Some Personal, ensureTerms = None\<rparr>"
    and "only_resume \<equiv> \<lparr>domainFilter = Some Resume, ensureTerms = None\<rparr>"
  shows "answer_retrieve env q k =
      (if ensure \<noteq> [] then
         ([\<lparr>domainFilter = None, ensureTerms = Some ensure\<rparr>],
          retrieveInternal env q k \<lparr>domainFilter = None, ensureTerms = Some ensure\<rparr>)
       else if classifyQuestion q = HintPersonal then
         (if retrieveInternal env q k only_personal = Inr []
          then ([only_personal, unfiltered], retrieveInternal env q k unfiltered)
          else ([only_personal], retrieveInternal env q k only_personal))
       else if classifyQuestion q = HintResume then
         ([only_resume], retrieveInternal env q k only_resume)
       else ([unfiltered], retrieveInternal env q k unfiltered))
    \<and> (classifyQuestion q = HintPersonal \<longrightarrow>
         (\<exists>payload. snd (loadIndex env) = Inr payload
            \<and> (\<forall>r \<in> set payload. domain_or_resume r \<noteq> Personal)) \<longrightarrow>
           snd (answer_retrieve env q k) =
             retrieveInternal env q k \<lparr>domainFilter = None, ensureTerms = Some ensure\<rparr>
         \<and> (ensure = [] \<longrightarrow>
              snd (answer_retrieve env q k) = retrieveInternal env q k unfiltered))"
proof -
  have route: "answer_retrieve env q k =
      (if ensure \<noteq> [] then
         ([\<lparr>domainFilter = None, ensureTerms = Some ensure\<rparr>],
          retrieveInternal env q k \<lparr>domainFilter = None, ensureTerms = Some ensure\<rparr>)
       else if classifyQuestion q = HintPersonal then
         (if retrieveInternal env q k only_personal = Inr []
          then ([only_personal, unfiltered], retrieveInternal env q k unfiltered)
          else ([only_personal], retrieveInternal env q k only_personal))
       else if classifyQuestion q = HintResume then
         ([only_resume], retrieveInternal env q k only_resume)
       else ([unfiltered], retrieveInternal env q k unfiltered))"
    unfolding answer_retrieve_def Let_def ensure_def unfiltered_def only_personal_def
      only_resume_def
    by (simp split: sum.splits)
  have fallback: "snd (answer_retrieve env q k) =
             retrieveInternal env q k \<lparr>domainFilter = None, ensureTerms = Some ensure\<rparr>
         \<and> (ensure = [] \<longrightarrow>
              snd (answer_retrieve env q k) = retrieveInternal env q k unfiltered)"
    if pers: "classifyQuestion q = HintPersonal"
      and none: "\<exists>payload. snd (loadIndex env) = Inr payload
                   \<and> (\<forall>r \<in> set payload. domain_or_resume r \<noteq> Personal)"
  proof -
    from none have "retrieveInternal env q k only_personal = Inr []"
      unfolding only_personal_def by (auto simp: retrieveInternal_no_candidates)
    moreover have "retrieveInternal env q k \<lparr>domainFilter = None, ensureTerms = Some []\<rparr>
        = retrieveInternal env q k unfiltered"
      unfolding unfiltered_def
      by (simp add: retrieveInternal_def rank_Some_Nil Let_def split: sum.splits option.splits)
    ultimately show ?thesis
      using pers by (auto simp: route)
  qed
  show ?thesis
    using route fallback by blast
qed

theorem answer_retrieve_routing_witness:
  "classifyQuestion ''My hobbies?'' = HintPersonal
   \<and> ensureTermsForQuestion ''My hobbies?'' = []
   \<and> snd (loadIndex env_resume_only) = Inr [rec_fynd]
   \<and> domain_or_resume rec_fynd \<noteq> Personal
   \<and> fst (answer_retrieve env_resume_only ''My hobbies?'' 5) =
        [\<lparr>domainFilter = Some Personal, ensureTerms = None\<rparr>,
         \<lparr>domainFilter = None, ensureTerms = None\<rparr>]
   \<and> snd (answer_retrieve env_resume_only ''My hobbies?'' 5) =
        retrieveInternal env_resume_only ''My hobbies?'' 5
          \<lparr>domainFilter = None, ensureTerms = None\<rparr>"
proof -
  have c: "classifyQuestion ''My hobbies?'' = HintPersonal"
    by (simp add: classify_eval)
  have e: "ensureTermsForQuestion ''My hobbies?'' = []"
    by (simp add: classify_eval)
  have l: "snd (loadIndex env_resume_only) = Inr [rec_fynd]"
    by (simp add: retrieve_eval env_resume_only_def)
  have d: "domain_or_resume rec_fynd \<noteq> Personal"
    by (simp add: domain_or_resume_def rec_fynd_def)
  have p: "retrieveInternal env_resume_only ''My hobbies?'' 5
             \<lparr>domainFilter = Some Personal, ensureTerms = None\<rparr> = Inr []"
    using l d by (simp add: retrieveInternal_no_candidates)
  show ?thesis
    using answer_retrieve_routing [of env_resume_only "''My hobbies?''" 5] c e l d p
    by simp
qed

text \<open>
  C3, as the specification words it, fails for a question that is classified personal and
  also derives ensure terms: over an index with no record of the personal domain,
  \<^verbatim>\<open>fynd hobbies\<close> gets the record that mentions \<^verbatim>\<open>ratl.ai\<close> first, and the retrieval without
  filter and without ensure terms returns the better-scoring record first.
\<close>

theorem answer_retrieve_ensure_counterexample:
  "classifyQuestion ''fynd hobbies'' = HintPersonal
   \<and> snd (loadIndex env_no_personal) = Inr [rec_ratl_work, rec_fynd]
   \<and> domain_or_resume rec_ratl_work \<noteq> Personal
   \<and> domain_or_resume rec_fynd \<noteq> Personal
   \<and> snd (answer_retrieve env_no_personal ''fynd hobbies'' 5) =
       Inr [with_cid (with_score rec_ratl_work 0) ''C1'',
            with_cid (with_score rec_fynd (10 ^ 12 / (10 ^ 12 + 1))) ''C2'']
   \<and> retrieveInternal env_no_personal ''fynd hobbies'' 5 \<lparr>domainFilter = None, ensureTerms = None\<rparr> =
       Inr [with_cid (with_score rec_fynd (10 ^ 12 / (10 ^ 12 + 1))) ''C1'',
            with_cid (with_score rec_ratl_work 0) ''C2'']"
proof -
  have c: "classifyQuestion ''fynd hobbies'' = HintPersonal"
    by (simp add: classify_eval)
  have t: "ensureTermsForQuestion ''fynd hobbies'' = [''ratl.ai'', ''about ratl.ai'']"
    by (simp add: classify_eval)
  have l: "snd (loadIndex env_no_personal) = Inr [rec_ratl_work, rec_fynd]"
    by (simp add: retrieve_eval env_no_personal_def)
  have d: "domain_or_resume rec_ratl_work \<noteq> Personal" "domain_or_resume rec_fynd \<noteq> Personal"
    by (simp_all add: domain_or_resume_def rec_ratl_work_def rec_fynd_def)
  have u: "retrieveInternal env_no_personal ''fynd hobbies'' 5 \<lparr>domainFilter = None, ensureTerms = None\<rparr> =
       Inr [with_cid (with_score rec_fynd (10 ^ 12 / (10 ^ 12 + 1))) ''C1'',
            with_cid (with_score rec_ratl_work 0) ''C2'']"
    by (simp add: retrieve_eval env_no_personal_def rec_ratl_work_def rec_fynd_def)
  have e: "retrieveInternal env_no_personal ''fynd hobbies'' 5
     \<lparr>domainFilter = None, ensureTerms = Some [''ratl.ai'', ''about ratl.ai'']\<rparr>
   = Inr [with_cid (with_score rec_ratl_work 0) ''C1'',
          with_cid (with_score rec_fynd (10 ^ 12 / (10 ^ 12 + 1))) ''C2'']"
    by (simp add: retrieve_eval env_no_personal_def rec_ratl_work_def rec_fynd_def)
  have a: "snd (answer_retrieve env_no_personal ''fynd hobbies'' 5) =
       Inr [with_cid (with_score rec_ratl_work 0) ''C1'',
            with_cid (with_score rec_fynd (10 ^ 12 / (10 ^ 12 + 1))) ''C2'']"
    by (simp add: answer_retrieve_def t e)
  show ?thesis
    using c l d u a by simp
qed

section \<open>Records, citation ids and deduplication\<close>

lemma truncate_with_cid: "Scored.truncate (with_cid r c) = r"
  by (simp add: with_cid_def Scored.truncate_def)

lemma truncate_with_score: "RecordT.truncate (with_score r s) = r"
  by (simp add: with_score_def RecordT.truncate_def)

lemma cid_with_cid: "cid (with_cid r c) = c"
  by (simp add: with_cid_def)


lemma rec_fields_with_score:
  "rec_id (with_score r s) = rec_id r" "rec_text (with_score r s) = rec_text r"
  "score (with_score r s) = s"
  by (simp_all add: with_score_def)

lemma length_assign_cids: "length (assign_cids xs) = length xs"
  by (simp add: assign_cids_def)

lemma nth_assign_cids:
  "i < length xs \<Longrightarrow> assign_cids xs ! i = with_cid (xs ! i) (''C'' @ decimal (i + 1))"
  by (simp add: assign_cids_def nth_enumerate_eq)

lemma truncate_assign_cids: "map Scored.truncate (assign_cids xs) = xs"
  by (rule nth_equalityI) (simp_all add: length_assign_cids nth_assign_cids truncate_with_cid)

lemma matches_ensure_iff:
  "matches_ensure (map toLowerCase terms) r \<longleftrightarrow>
     (\<exists>t \<in> set terms. sublist (toLowerCase t) (toLowerCase (rec_text r)))"
  by (simp add: matches_ensure_def list_ex_iff includes_iff_sublist)


lemma dedupe_by_id_index:
  "dedupe_by_id seen ms =
     map (\<lambda>i. ms ! i)
       (filter (\<lambda>i. rec_id (ms ! i) \<notin> seen \<union> rec_id ` set (take i ms)) [0..<length ms])"
proof (induction ms arbitrary: seen)
  case Nil
  then show ?case by simp
next
  case (Cons m ms)
  have upt: "[0..<length (m # ms)] = 0 # map Suc [0..<length ms]"
    by (simp add: upt_conv_Cons map_Suc_upt del: upt_Suc)
  have tl: "map (\<lambda>i. (m # ms) ! i)
              (filter (\<lambda>i. rec_id ((m # ms) ! i) \<notin> seen \<union> rec_id ` set (take i (m # ms)))
                 (map Suc [0..<length ms]))
            = dedupe_by_id (insert (rec_id m) seen) ms"
    by (simp add: Cons.IH filter_map comp_def conj_commute conj_left_commute)
  show ?case
  proof (cases "rec_id m \<in> seen")
    case True
    then have "insert (rec_id m) seen = seen" by auto
    with True tl show ?thesis
      unfolding upt by simp
  next
    case False
    with tl show ?thesis
      unfolding upt by simp
  qed
qed

lemma dedupe_by_id_first: "dedupe_by_id {} ms = first_by_id ms"
  by (simp add: dedupe_by_id_index first_by_id_def)

lemma dedupe_by_id_subset: "set (dedupe_by_id seen ms) \<subseteq> set ms"
  by (induction ms arbitrary: seen) auto

lemma dedupe_by_id_ids: "rec_id ` set (dedupe_by_id seen ms) = rec_id ` set ms - seen"
  by (induction ms arbitrary: seen) auto

lemma dedupe_by_id_distinct:
  "distinct (map rec_id ms) \<Longrightarrow> rec_id ` set ms \<inter> seen = {} \<Longrightarrow> dedupe_by_id seen ms = ms"
  by (induction ms arbitrary: seen) auto



lemma slice0_all: "int (length xs) \<le> k \<Longrightarrow> slice0 xs k = xs"
  by (simp add: slice0_def)

lemma slice0_prefix: "prefix (slice0 xs k) xs"
  by (simp add: slice0_def take_is_prefix)

lemma score_all_Some:
  "score_all qn rs = Some ss \<Longrightarrow>
     map RecordT.truncate ss = rs \<and> map rec_id ss = map rec_id rs \<and> map rec_text ss = map rec_text rs
     \<and> map (\<lambda>r. Some (score r)) ss = map (\<lambda>r. cosine qn (embedding r)) rs"
  by (induction rs arbitrary: ss)
     (auto split: option.splits simp: truncate_with_score rec_fields_with_score)

lemma sort_by_score_mset: "mset (sort_by_score xs) = mset xs"
  by (simp add: sort_by_score_def)

lemma sort_by_score_set: "set (sort_by_score xs) = set xs"
  by (simp add: sort_by_score_def)

lemma sort_by_score_sorted: "sorted_wrt (\<lambda>a b. score b \<le> score a) (sort_by_score xs)"
proof -
  have "sorted (map (\<lambda>r. - score r) (sort_by_score xs))"
    by (simp add: sort_by_score_def)
  then show ?thesis
    by (simp add: sorted_map sorted_wrt_iff_nth_less)
qed

lemma sort_by_score_stable:
  "filter (\<lambda>r. score r = s) (sort_by_score xs) = filter (\<lambda>r. score r = s) xs"
proof -
  have "filter (\<lambda>r. - score r = - s) (sort_key (\<lambda>r. - score r) xs) = filter (\<lambda>r. - score r = - s) xs"
    by (rule sort_key_stable)
  then show ?thesis by (simp add: sort_by_score_def)
qed

lemma sort_by_score_distinct_ids:
  "distinct (map rec_id xs) \<Longrightarrow> distinct (map rec_id (sort_by_score xs))"
proof -
  have "mset (map rec_id (sort_by_score xs)) = mset (map rec_id xs)"
    using sort_by_score_mset [of xs] by (metis mset_map)
  then show "distinct (map rec_id xs) \<Longrightarrow> distinct (map rec_id (sort_by_score xs))"
    using mset_eq_imp_distinct_iff by blast
qed

section \<open>The composition of the result\<close>

lemma truncate_truncate: "RecordT.truncate (Scored.truncate c) = RecordT.truncate c"
  by (simp add: RecordT.truncate_def Scored.truncate_def)

lemma rec_fields_truncate:
  "rec_id (Scored.truncate c) = rec_id c" "rec_text (Scored.truncate c) = rec_text c"
  "score (Scored.truncate c) = score c"
  by (simp_all add: Scored.truncate_def)

lemma rank_eq:
  "rank scored0 terms k =
     assign_cids
       (slice0
          (ensured_of (map toLowerCase (case terms of None \<Rightarrow> [] | Some ts \<Rightarrow> ts)) (sort_by_score scored0)
           @ filter (\<lambda>r. rec_id r \<notin> rec_id `
                 set (ensured_of (map toLowerCase (case terms of None \<Rightarrow> [] | Some ts \<Rightarrow> ts))
                        (sort_by_score scored0)))
               (sort_by_score scored0)) k)"
  by (simp add: rank_def Let_def)

lemma rank_None: "rank scored0 None k = assign_cids (slice0 (sort_by_score scored0) k)"
  by (simp add: rank_eq ensured_of_def)

lemma matches_ensure_fun:
  "matches_ensure (map toLowerCase terms) =
     (\<lambda>r. \<exists>t \<in> set terms. sublist (toLowerCase t) (toLowerCase (rec_text r)))"
  by (rule ext) (rule matches_ensure_iff)

lemma ensured_of_first:
  "terms \<noteq> [] \<Longrightarrow>
     ensured_of (map toLowerCase terms) xs =
       first_by_id (filter (\<lambda>r. \<exists>t \<in> set terms. sublist (toLowerCase t) (toLowerCase (rec_text r))) xs)"
  by (simp add: ensured_of_def dedupe_by_id_first matches_ensure_fun)

lemma ensured_of_match: "r \<in> set (ensured_of ensure xs) \<Longrightarrow> matches_ensure ensure r \<and> r \<in> set xs"
  using dedupe_by_id_subset [of "{}" "filter (matches_ensure ensure) xs"]
  by (auto simp: ensured_of_def split: if_splits)

lemma ensured_of_ids:
  "ensure \<noteq> [] \<Longrightarrow>
     rec_id ` set (ensured_of ensure xs) = rec_id ` {r \<in> set xs. matches_ensure ensure r}"
  by (simp add: ensured_of_def dedupe_by_id_ids)

lemma ensured_of_Nil: "ensured_of [] xs = []"
  by (simp add: ensured_of_def)


lemma ensured_of_distinct:
  assumes "distinct (map rec_id xs)"
  shows "ensured_of ensure xs = (if ensure = [] then [] else filter (matches_ensure ensure) xs)"
proof -
  have "distinct (map rec_id (filter (matches_ensure ensure) xs))"
    using assms by (simp add: distinct_map_filter)
  then show ?thesis
    by (simp add: ensured_of_def dedupe_by_id_distinct)
qed

lemma rest_distinct:
  assumes "distinct (map rec_id xs)" "ensure \<noteq> []"
  shows "filter (\<lambda>r. rec_id r \<notin> rec_id ` set (ensured_of ensure xs)) xs
           = filter (\<lambda>r. \<not> matches_ensure ensure r) xs"
proof (rule filter_cong [OF refl])
  fix r assume r: "r \<in> set xs"
  have inj: "inj_on rec_id (set xs)"
    using assms(1) by (simp add: distinct_map)
  show "(rec_id r \<notin> rec_id ` set (ensured_of ensure xs)) = (\<not> matches_ensure ensure r)"
    using r inj assms(2) by (auto simp: ensured_of_ids dest: inj_onD)
qed

lemma placed_mset:
  assumes "ensure = [] \<or> distinct (map rec_id xs)"
  shows "mset (ensured_of ensure xs
               @ filter (\<lambda>r. rec_id r \<notin> rec_id ` set (ensured_of ensure xs)) xs) = mset xs"
proof (cases "ensure = []")
  case True
  then show ?thesis by (simp add: ensured_of_Nil)
next
  case False
  with assms have d: "distinct (map rec_id xs)" by simp
  show ?thesis
    unfolding rest_distinct [OF d False]
    using False by (simp add: ensured_of_distinct [OF d])
qed

lemma placed_subset:
  "set (ensured_of ensure xs @ filter (\<lambda>r. rec_id r \<notin> rec_id ` set (ensured_of ensure xs)) xs)
     \<subseteq> set xs"
  using ensured_of_match by auto



lemma rank_Nil: "rank [] terms k = []"
  by (simp add: rank_eq sort_by_score_def ensured_of_def slice0_def assign_cids_def)

lemma score_all_Nil_iff: "score_all qn rs = Some [] \<longleftrightarrow> rs = []"
  by (cases rs) (auto split: option.splits)

lemma retrieveInternal_scored:
  assumes "snd (loadIndex env) = Inr payload" "embeddings_create env q = Some qv"
    and "score_all (normalize_vec qv) (filter_domain (domainFilter opts) payload) = Some scored0"
  shows "retrieveInternal env q k opts = Inr (rank scored0 (ensureTerms opts) k)"
proof (cases "filter_domain (domainFilter opts) payload = []")
  case True
  with assms(3) have "scored0 = []" by simp
  with True assms(1) show ?thesis
    by (simp add: retrieveInternal_def rank_Nil)
next
  case False
  with assms show ?thesis
    by (simp add: retrieveInternal_def)
qed

lemma retrieveInternal_Inr:
  assumes "retrieveInternal env q k opts = Inr res" "snd (loadIndex env) = Inr payload"
  shows "(filter_domain (domainFilter opts) payload = [] \<and> res = [])
       \<or> (\<exists>qv scored0. embeddings_create env q = Some qv
             \<and> score_all (normalize_vec qv) (filter_domain (domainFilter opts) payload) = Some scored0
             \<and> res = rank scored0 (ensureTerms opts) k)"
  using assms by (auto simp: retrieveInternal_def Let_def split: if_splits option.splits)

lemma rank_records_subset:
  "set (map Scored.truncate (rank scored0 terms k)) \<subseteq> set scored0"
proof -
  have "set (slice0 xs k) \<subseteq> set xs" for xs :: "Scored list"
    using slice0_prefix [of xs k] by (rule set_mono_prefix)
  then show ?thesis
    unfolding rank_eq truncate_assign_cids
    using placed_subset sort_by_score_set by blast
qed

lemma slice0_map: "map f (slice0 xs k) = slice0 (map f xs) k"
  by (simp add: slice0_def take_map)

lemma rank_records_perm:
  assumes "terms = None \<or> distinct (map rec_id scored0)"
  shows "\<exists>placed. mset placed = mset scored0
           \<and> map Scored.truncate (rank scored0 terms k) = slice0 placed k"
proof -
  let ?ensure = "map toLowerCase (case terms of None \<Rightarrow> [] | Some ts \<Rightarrow> ts)"
  let ?xs = "sort_by_score scored0"
  let ?placed = "ensured_of ?ensure ?xs
                   @ filter (\<lambda>r. rec_id r \<notin> rec_id ` set (ensured_of ?ensure ?xs)) ?xs"
  have "?ensure = [] \<or> distinct (map rec_id ?xs)"
    using assms by (auto simp: sort_by_score_distinct_ids)
  then have "mset ?placed = mset scored0"
    by (simp only: placed_mset sort_by_score_mset)
  moreover have "map Scored.truncate (rank scored0 terms k) = slice0 ?placed k"
    unfolding rank_eq truncate_assign_cids ..
  ultimately show ?thesis
    by blast
qed

text \<open>
  C5. With a domain filter, \<^verbatim>\<open>retrieveInternal\<close> keeps the records of the loaded index whose
  domain, \<open>resume\<close> when the field is absent, is the filter. When none is kept the result is the
  empty list, not a failure (the embedding service is not even called). Every returned record is
  a kept one. When no ensure term is given, or the ids of the index are distinct, the returned
  records are the kept records in some order, cut by \<^verbatim>\<open>slice(0, k)\<close>; so they are exactly the
  kept records as soon as \<open>k\<close> is at least their number.
\<close>

theorem retrieve_domain_filter:
  fixes env :: Env and d :: Domain
  assumes load: "snd (loadIndex env) = Inr payload"
  defines "kept \<equiv> filter (\<lambda>r. (case domain r of None \<Rightarrow> Resume | Some x \<Rightarrow> x) = d) payload"
  shows "(kept = [] \<longrightarrow>
            retrieveInternal env q k \<lparr>domainFilter = Some d, ensureTerms = terms\<rparr> = Inr [])
       \<and> (\<forall>res. retrieveInternal env q k \<lparr>domainFilter = Some d, ensureTerms = terms\<rparr> = Inr res \<longrightarrow>
              set (map RecordT.truncate res) \<subseteq> set kept
            \<and> (terms = None \<or> distinct (map rec_id payload) \<longrightarrow>
                 (\<exists>ordered. mset ordered = mset kept
                    \<and> map RecordT.truncate res = slice0 ordered k)
               \<and> (int (length kept) \<le> k \<longrightarrow> mset (map RecordT.truncate res) = mset kept)))"
proof -
  let ?opts = "\<lparr>domainFilter = Some d, ensureTerms = terms\<rparr>"
  have kept: "filter_domain (domainFilter ?opts) payload = kept"
    by (simp add: filter_domain_def kept_def domain_or_resume_def)
  have empty: "retrieveInternal env q k ?opts = Inr []" if "kept = []"
    using that load kept by (simp add: retrieveInternal_def)
  have sound: "set (map RecordT.truncate res) \<subseteq> set kept
      \<and> (terms = None \<or> distinct (map rec_id payload) \<longrightarrow>
                 (\<exists>ordered. mset ordered = mset kept
                    \<and> map RecordT.truncate res = slice0 ordered k)
               \<and> (int (length kept) \<le> k \<longrightarrow> mset (map RecordT.truncate res) = mset kept))"
    if res: "retrieveInternal env q k ?opts = Inr res" for res
  proof -
    from retrieveInternal_Inr [OF res load]
    consider "kept = []" "res = []"
      | qv scored0 where "score_all (normalize_vec qv) kept = Some scored0"
          "res = rank scored0 terms k"
      unfolding kept by auto
    then show ?thesis
    proof cases
      case 1
      have "map RecordT.truncate res = slice0 [] k"
        using 1 by (simp add: slice0_def)
      then show ?thesis
        using 1 by auto
    next
      case 2
      have trunc: "map RecordT.truncate res = map RecordT.truncate (map Scored.truncate res)"
        by (simp add: truncate_truncate)
      have sc: "map RecordT.truncate scored0 = kept" "map rec_id scored0 = map rec_id kept"
        using score_all_Some [OF 2(1)] by simp_all
      have "set (map Scored.truncate res) \<subseteq> set scored0"
        unfolding 2(2) by (rule rank_records_subset)
      then have "RecordT.truncate ` set (map Scored.truncate res) \<subseteq> RecordT.truncate ` set scored0"
        by (rule image_mono)
      moreover have "RecordT.truncate ` set scored0 = set kept"
        unfolding sc(1) [symmetric] by simp
      ultimately have sub: "set (map RecordT.truncate res) \<subseteq> set kept"
        unfolding trunc by (simp add: image_image)
      have exact: "(\<exists>ordered. mset ordered = mset kept
                    \<and> map RecordT.truncate res = slice0 ordered k)
               \<and> (int (length kept) \<le> k \<longrightarrow> mset (map RecordT.truncate res) = mset kept)"
        if t: "terms = None \<or> distinct (map rec_id payload)"
      proof -
        have "distinct (map rec_id payload) \<Longrightarrow> distinct (map rec_id kept)"
          by (simp add: kept_def distinct_map_filter)
        with t have "terms = None \<or> distinct (map rec_id scored0)"
          by (auto simp: sc(2))
        from rank_records_perm [OF this, of k]
        obtain placed where p: "mset placed = mset scored0"
          "map Scored.truncate res = slice0 placed k"
          unfolding 2(2) by blast
        have "image_mset RecordT.truncate (mset placed) = image_mset RecordT.truncate (mset scored0)"
          using p(1) by simp
        then have "mset (map RecordT.truncate placed) = mset (map RecordT.truncate scored0)"
          by (simp only: mset_map)
        then have m: "mset (map RecordT.truncate placed) = mset kept"
          unfolding sc(1) .
        have r: "map RecordT.truncate res = slice0 (map RecordT.truncate placed) k"
          unfolding trunc p(2) by (rule slice0_map)
        have "mset (map RecordT.truncate res) = mset kept" if "int (length kept) \<le> k"
        proof -
          have "length (map RecordT.truncate placed) = length kept"
            using m by (rule mset_eq_length)
          then have "slice0 (map RecordT.truncate placed) k = map RecordT.truncate placed"
            using that by (simp add: slice0_all)
          then show ?thesis
            using r m by simp
        qed
        with m r show ?thesis
          by blast
      qed
      show ?thesis
        using sub exact by blast
    qed
  qed
  show ?thesis
    using empty sound by blast
qed

theorem retrieve_domain_filter_witness:
  "snd (loadIndex env_resume_only) = Inr [rec_fynd]
   \<and> retrieveInternal env_resume_only ''q'' 5 \<lparr>domainFilter = Some Personal, ensureTerms = None\<rparr>
       = Inr []
   \<and> snd (loadIndex env_both) = Inr [rec_ratl, rec_fynd]
   \<and> retrieveInternal env_both ''q'' 1 \<lparr>domainFilter = Some Personal, ensureTerms = None\<rparr>
       = Inr [with_cid (with_score rec_ratl 0) ''C1'']
   \<and> mset (map RecordT.truncate [with_cid (with_score rec_ratl 0) ''C1'']) = mset [rec_ratl]"
proof -
  have l1: "snd (loadIndex env_resume_only) = Inr [rec_fynd]"
    by (simp add: retrieve_eval env_resume_only_def)
  have l2: "snd (loadIndex env_both) = Inr [rec_ratl, rec_fynd]"
    by (simp add: retrieve_eval env_both_def)
  have r2: "retrieveInternal env_both ''q'' 1 \<lparr>domainFilter = Some Personal, ensureTerms = None\<rparr>
      = Inr [with_cid (with_score rec_ratl 0) ''C1'']"
    by (simp add: retrieve_eval env_both_def rec_ratl_def rec_fynd_def)
  have "retrieveInternal env_resume_only ''q'' 5 \<lparr>domainFilter = Some Personal, ensureTerms = None\<rparr>
       = Inr []"
    using retrieve_domain_filter [OF l1, of Personal "''q''" 5 None]
    by (simp add: rec_fynd_def)
  moreover have "mset (map RecordT.truncate [with_cid (with_score rec_ratl 0) ''C1''])
      = mset [rec_ratl]"
    using retrieve_domain_filter [OF l2, of Personal "''q''" 1 None] r2
    by (simp add: rec_ratl_def rec_fynd_def)
  ultimately show ?thesis
    using l1 l2 r2 by simp
qed

section \<open>Ensure-term precedence\<close>







section \<open>Determinism and ties\<close>

text \<open>
  C9. The result of \<^verbatim>\<open>retrieveInternal\<close> is a function of the index it loads, the embedding of
  the query, \<open>k\<close> and the options: two runs that agree on these return the same records in the
  same order with the same scores and citation ids, whatever else differs around them. The
  candidates are scored in index order and sorted by descending score with a stable sort:
  records of equal score keep their index order. Without ensure terms the result is the sorted
  list, cut by \<^verbatim>\<open>slice(0, k)\<close> and cited by position.
\<close>

theorem retrieve_deterministic:
  assumes "snd (loadIndex env1) = snd (loadIndex env2)"
    and "embeddings_create env1 q = embeddings_create env2 q"
  shows "retrieveInternal env1 q k opts = retrieveInternal env2 q k opts
       \<and> (\<forall>payload qv scored0.
             snd (loadIndex env1) = Inr payload \<and> embeddings_create env1 q = Some qv
             \<and> score_all (normalize_vec qv) (filter_domain (domainFilter opts) payload) = Some scored0 \<longrightarrow>
               map RecordT.truncate scored0 = filter_domain (domainFilter opts) payload
             \<and> mset (sort_by_score scored0) = mset scored0
             \<and> sorted_wrt (\<lambda>a b. score b \<le> score a) (sort_by_score scored0)
             \<and> (\<forall>s. filter (\<lambda>r. score r = s) (sort_by_score scored0)
                      = filter (\<lambda>r. score r = s) scored0)
             \<and> (ensureTerms opts = None \<longrightarrow>
                  (\<exists>res. retrieveInternal env1 q k opts = Inr res
                     \<and> map Scored.truncate res = slice0 (sort_by_score scored0) k
                     \<and> (\<forall>i < length res. cid (res ! i) = ''C'' @ decimal (i + 1)))))"
proof -
  have same: "retrieveInternal env1 q k opts = retrieveInternal env2 q k opts"
    unfolding retrieveInternal_def assms(1) assms(2) by (rule refl)
  have order: "map RecordT.truncate scored0 = filter_domain (domainFilter opts) payload
             \<and> mset (sort_by_score scored0) = mset scored0
             \<and> sorted_wrt (\<lambda>a b. score b \<le> score a) (sort_by_score scored0)
             \<and> (\<forall>s. filter (\<lambda>r. score r = s) (sort_by_score scored0)
                      = filter (\<lambda>r. score r = s) scored0)
             \<and> (ensureTerms opts = None \<longrightarrow>
                  (\<exists>res. retrieveInternal env1 q k opts = Inr res
                     \<and> map Scored.truncate res = slice0 (sort_by_score scored0) k
                     \<and> (\<forall>i < length res. cid (res ! i) = ''C'' @ decimal (i + 1))))"
    if l: "snd (loadIndex env1) = Inr payload" and e: "embeddings_create env1 q = Some qv"
      and s: "score_all (normalize_vec qv) (filter_domain (domainFilter opts) payload) = Some scored0"
    for payload qv scored0
  proof -
    have r: "retrieveInternal env1 q k opts = Inr (rank scored0 (ensureTerms opts) k)"
      by (rule retrieveInternal_scored [OF l e s])
    have plain: "map Scored.truncate (rank scored0 None k) = slice0 (sort_by_score scored0) k"
      by (simp add: rank_None truncate_assign_cids)
    have cids: "\<forall>i < length (rank scored0 None k). cid (rank scored0 None k ! i) = ''C'' @ decimal (i + 1)"
      by (simp add: rank_None length_assign_cids nth_assign_cids cid_with_cid)
    show ?thesis
      using score_all_Some [OF s] sort_by_score_mset sort_by_score_sorted sort_by_score_stable
        r plain cids by simp
  qed
  show ?thesis
    using same order by blast
qed


theorem retrieve_deterministic_witness:
  "snd (loadIndex env_tie) = snd (loadIndex env_tie_other)
   \<and> embeddings_create env_tie ''q'' = embeddings_create env_tie_other ''q''
   \<and> retrieveInternal env_tie_other ''q'' 5 \<lparr>domainFilter = None, ensureTerms = None\<rparr> =
       Inr [with_cid (with_score rec_high (10 ^ 12 / (10 ^ 12 + 1))) ''C1'',
            with_cid (with_score rec_low 0) ''C2'',
            with_cid (with_score rec_tie 0) ''C3'']"
proof -
  have l: "snd (loadIndex env_tie) = snd (loadIndex env_tie_other)"
    by (simp add: retrieve_eval env_tie_def env_tie_other_def)
  have e: "embeddings_create env_tie ''q'' = embeddings_create env_tie_other ''q''"
    by (simp add: env_tie_def env_tie_other_def)
  have r: "retrieveInternal env_tie ''q'' 5 \<lparr>domainFilter = None, ensureTerms = None\<rparr> =
       Inr [with_cid (with_score rec_high (10 ^ 12 / (10 ^ 12 + 1))) ''C1'',
            with_cid (with_score rec_low 0) ''C2'',
            with_cid (with_score rec_tie 0) ''C3'']"
    by (simp add: retrieve_eval env_tie_def rec_low_def rec_high_def rec_tie_def)
  show ?thesis
    using retrieve_deterministic [OF l e, of 5 "\<lparr>domainFilter = None, ensureTerms = None\<rparr>"] l e r
    by simp
qed

section \<open>Scanning the unsorted candidates\<close>



















section \<open>The index build\<close>

lemma last_dropWhile_nonempty:
  assumes "dropWhile P xs \<noteq> []"
  shows "last (dropWhile P xs) = last xs"
proof -
  have "length (takeWhile P xs) < length xs"
    using assms by (metis dropWhile_eq_drop drop_eq_Nil not_le_imp_less)
  then show ?thesis
    by (simp add: dropWhile_eq_drop)
qed

lemma trim_ends:
  assumes "trim s \<noteq> []"
  shows "\<not> is_white_space (hd (trim s)) \<and> \<not> is_white_space (last (trim s))"
proof -
  let ?d = "dropWhile is_white_space s"
  let ?u = "dropWhile is_white_space (rev ?d)"
  have t: "trim s = rev ?u"
    by (simp add: trim_def)
  from assms have u: "?u \<noteq> []"
    by (simp add: t)
  have d: "?d \<noteq> []"
    using u by (metis dropWhile.simps(1) rev.simps(1))
  have "\<not> is_white_space (hd ?u)"
    using u by (rule hd_dropWhile)
  then have l: "\<not> is_white_space (last (trim s))"
    using u by (simp add: t last_rev)
  have "last ?u = last (rev ?d)"
    using u by (rule last_dropWhile_nonempty)
  also have "\<dots> = hd ?d"
    using d by (simp add: last_rev)
  finally have "hd (trim s) = hd ?d"
    using u by (simp add: t hd_rev)
  moreover have "\<not> is_white_space (hd ?d)"
    using d by (rule hd_dropWhile)
  ultimately show ?thesis
    using l by simp
qed

lemma dropWhile_id: "xs = [] \<or> \<not> P (hd xs) \<Longrightarrow> dropWhile P xs = xs"
  by (cases xs) auto

lemma trim_fixed:
  assumes "t = [] \<or> (\<not> is_white_space (hd t) \<and> \<not> is_white_space (last t))"
  shows "trim t = t"
proof -
  have "dropWhile is_white_space t = t"
    using assms by (intro dropWhile_id) auto
  moreover have "dropWhile is_white_space (rev t) = rev t"
    using assms by (intro dropWhile_id) (auto simp: hd_rev)
  ultimately show ?thesis
    by (simp add: trim_def)
qed

lemma trim_idem: "trim (trim s) = trim s"
  using trim_ends [of s] by (intro trim_fixed) blast

lemma chunkText_floor:
  assumes "chunkText split txt = Inr chunks" "c \<in> set chunks"
  shows "50 < length c \<and> trim c = c"
  using assms by (auto simp: chunkText_def trim_idem split: option.splits)

lemma chunk_docs_floor:
  assumes "chunk_docs split docs chunkTexts metas = Inr (chunkTexts', metas')"
    and "\<forall>c \<in> set chunkTexts. 50 < length c \<and> trim c = c"
  shows "\<forall>c \<in> set chunkTexts'. 50 < length c \<and> trim c = c"
  using assms
proof (induction docs arbitrary: chunkTexts metas)
  case Nil
  then show ?case by simp
next
  case (Cons d docs)
  from Cons.prems(1) obtain chunks where ch: "chunkText split (doc_text d) = Inr chunks"
    and rest: "chunk_docs split docs (chunkTexts @ chunks)
                 (metas @ map (\<lambda>ch. (doc_source d, doc_domain d)) chunks) = Inr (chunkTexts', metas')"
    by (auto split: sum.splits)
  have "\<forall>c \<in> set (chunkTexts @ chunks). 50 < length c \<and> trim c = c"
    using Cons.prems(2) chunkText_floor [OF ch] by auto
  with rest show ?case
    by (rule Cons.IH)
qed

lemma make_records_texts: "map built_text (make_records chunkTexts metas embeddings) = chunkTexts"
proof -
  have "map built_text (make_records chunkTexts metas embeddings)
          = map snd (enumerate 0 chunkTexts)"
    by (simp add: make_records_def case_prod_unfold comp_def)
  then show ?thesis
    by simp
qed

lemma make_records_ids:
  "map built_id (make_records chunkTexts metas embeddings) = [0..<length chunkTexts]"
proof -
  have "map built_id (make_records chunkTexts metas embeddings)
          = map fst (enumerate 0 chunkTexts)"
    by (simp add: make_records_def case_prod_unfold comp_def)
  then show ?thesis
    by simp
qed

lemma buildIndex_Inr:
  assumes "buildIndex env = Inr records"
  shows "\<exists>docs chunkTexts metas embeddings.
           chunk_docs (splitText env) docs [] [] = Inr (chunkTexts, metas)
         \<and> records = make_records chunkTexts metas embeddings"
  using assms by (auto simp: buildIndex_def split: if_splits sum.splits prod.splits)


lemma example_docs:
  "loadDocuments (data_dir build_env_example) =
     Inr [\<lparr>doc_text = ''Worked at Fynd. Before that, studied. Likes hiking.'',
           doc_source = ''resume.md'', doc_domain = Resume\<rparr>]"
  by (simp add: loadDocuments_def bases_def exts_def build_env_example_def)

lemma example_chunks:
  "chunkText (splitText build_env_example) t =
     Inr [''Worked at Fynd as an engineer on retrieval systems, 2020-2024.'']"
  by (simp add: chunkText_def build_env_example_def trim_def is_white_space_def)

lemma example_embeddings:
  "embed_batches (embeddings_create_batch build_env_example) [c] 0 [] = Inr [[Num 1, Num 0]]"
  by (simp add: embed_batches.simps embedBatch_def build_env_example_def normalize_two)


text \<open>
  C7. Every record that \<^verbatim>\<open>buildIndex\<close> writes to the index has a text of more than 50
  characters, so of at least 51, which is trimmed: trimming leaves it unchanged, and it neither
  starts nor ends with white space.
\<close>

theorem buildIndex_chunk_floor:
  assumes "buildIndex env = Inr records" "r \<in> set records"
  shows "51 \<le> length (built_text r)
       \<and> trim (built_text r) = built_text r
       \<and> \<not> is_white_space (hd (built_text r))
       \<and> \<not> is_white_space (last (built_text r))"
proof -
  from buildIndex_Inr [OF assms(1)] obtain docs chunkTexts metas embeddings
    where ch: "chunk_docs (splitText env) docs [] [] = Inr (chunkTexts, metas)"
      and rs: "records = make_records chunkTexts metas embeddings"
    by blast
  have fl: "\<forall>c \<in> set chunkTexts. 50 < length c \<and> trim c = c"
    using chunk_docs_floor [OF ch] by simp
  have "built_text r \<in> set (map built_text records)"
    using assms(2) by simp
  then have "built_text r \<in> set chunkTexts"
    unfolding rs make_records_texts .
  with fl have ok: "50 < length (built_text r)" "trim (built_text r) = built_text r"
    by auto
  then have "trim (built_text r) \<noteq> []"
    by auto
  from trim_ends [OF this] ok show ?thesis
    by simp
qed

theorem buildIndex_chunk_floor_witness:
  "buildIndex build_env_example =
     Inr [\<lparr>built_id = 0,
           built_text = ''Worked at Fynd as an engineer on retrieval systems, 2020-2024.'',
           built_source = ''resume.md'', built_domain = Resume,
           built_embedding = Some [Num 1, Num 0]\<rparr>]
   \<and> 51 \<le> length ''Worked at Fynd as an engineer on retrieval systems, 2020-2024.''
   \<and> trim ''Worked at Fynd as an engineer on retrieval systems, 2020-2024.''
       = ''Worked at Fynd as an engineer on retrieval systems, 2020-2024.''"
proof -
  let ?r = "\<lparr>built_id = 0,
           built_text = ''Worked at Fynd as an engineer on retrieval systems, 2020-2024.'',
           built_source = ''resume.md'', built_domain = Resume,
           built_embedding = Some [Num 1, Num 0]\<rparr>"
  have b: "buildIndex build_env_example = Inr [?r]"
    by (simp add: buildIndex_def example_docs example_chunks example_embeddings make_records_def)
       (simp add: build_env_example_def)
  have "?r \<in> set [?r]"
    by simp
  from buildIndex_chunk_floor [OF b this] b show ?thesis
    by simp
qed

end
